theory Spec2Isabelle
  imports Main
begin

section \<open>JavaScript values\<close>

text \<open>
  The three programs of the relay (the hub \<open>socket.ts\<close>, the issuer \<open>server.ts\<close> and the
  plugin \<open>code.js\<close>) exchange JSON texts and look at them with JavaScript's untyped
  operators. A frame is represented by the value it denotes; \<open>JSON.parse\<close> is a parameter
  of every handler that reads raw text (\<open>None\<close>: it throws a SyntaxError), and the argument
  of \<open>JSON.stringify\<close> stands for the text it writes.

  A number is kept as the text JavaScript prints for it (\<open>Number::toString\<close>, which is also
  what \<open>JSON.stringify\<close> writes): two numbers are the same map key exactly when they print
  the same, and a number is falsy exactly when it prints as \<open>0\<close> (\<open>JSON.parse\<close> yields no NaN).
\<close>

datatype jsval =
    JUndefined
  | JNull
  | JBool bool
  | JNum string
  | JStr string
  | JArr "jsval list"
  | JObj "(string \<times> jsval) list"

text \<open>What a \<open>throw\<close> carries: \<open>Error m\<close> is \<open>new Error(m)\<close>.\<close>

datatype js_error = SyntaxError | TypeError | Error string

text \<open>Truthiness, as \<open>!v\<close> and \<open>if (v)\<close> and \<open>a && b\<close> test it.\<close>

fun truthy :: "jsval \<Rightarrow> bool" where
  "truthy JUndefined = False"
| "truthy JNull = False"
| "truthy (JBool b) = b"
| "truthy (JNum t) = (t \<noteq> ''0'')"
| "truthy (JStr s) = (s \<noteq> [])"
| "truthy (JArr xs) = True"
| "truthy (JObj kvs) = True"

text \<open>
  Reading a property \<open>v.k\<close> for one of the names the relay reads (\<open>type\<close>, \<open>channel\<close>, \<open>id\<close>,
  \<open>message\<close>, \<open>error\<close>, \<open>result\<close>, \<open>command\<close>, \<open>params\<close>): on \<open>null\<close> and \<open>undefined\<close> it throws a
  TypeError; on an object it is the own property or \<open>undefined\<close>; no primitive wrapper and
  no array has a property of one of these names.
\<close>

fun get_prop :: "jsval \<Rightarrow> string \<Rightarrow> js_error + jsval" where
  "get_prop JUndefined k = Inl TypeError"
| "get_prop JNull k = Inl TypeError"
| "get_prop (JObj kvs) k = Inr (case map_of kvs k of None \<Rightarrow> JUndefined | Some v \<Rightarrow> v)"
| "get_prop v k = Inr JUndefined"

text \<open>The same read where the receiver is known to be neither \<open>null\<close> nor \<open>undefined\<close>.\<close>

definition js_prop :: "jsval \<Rightarrow> string \<Rightarrow> jsval" where
  "js_prop v k = (case get_prop v k of Inl e \<Rightarrow> JUndefined | Inr x \<Rightarrow> x)"

text \<open>
  What \<open>JSON.stringify\<close> writes for an object literal: a property whose value is
  \<open>undefined\<close> is left out.
\<close>

definition json_object :: "(string \<times> jsval) list \<Rightarrow> jsval" where
  "json_object kvs = JObj (filter (\<lambda>kv. snd kv \<noteq> JUndefined) kvs)"

text \<open>
  What \<open>JSON.stringify\<close> writes for a value nested in the one it is given: at every depth
  a property whose value is \<open>undefined\<close> is left out, and an \<open>undefined\<close> array element
  is written \<open>null\<close>. (A value that \<open>JSON.parse\<close> has built holds no \<open>undefined\<close> and is
  written as it is.)
\<close>

fun json_value :: "jsval \<Rightarrow> jsval" where
  "json_value (JObj kvs) =
     JObj (map (\<lambda>kv. (fst kv, json_value (snd kv))) (filter (\<lambda>kv. snd kv \<noteq> JUndefined) kvs))"
| "json_value (JArr xs) = JArr (map (\<lambda>x. if x = JUndefined then JNull else json_value x) xs)"
| "json_value v = v"

text \<open>
  String conversion (\<open>ToString\<close>), as a template literal \<open>`${v}`\<close>, a property key
  \<open>o[v]\<close> and \<open>new Error(v)\<close> perform it. An object is converted by its \<open>toString\<close>
  property: the one of \<open>Object.prototype\<close> gives \<open>[object Object]\<close>, but an own property
  of that name hides it, and such a property of a value built from JSON (or received
  through \<open>postMessage\<close>) is no function, so that the conversion throws a TypeError. An
  array is converted by joining the conversions of its elements, from left to right, the
  first that throws ending it.
\<close>

fun intercalate :: "string \<Rightarrow> string list \<Rightarrow> string" where
  "intercalate sep [] = []"
| "intercalate sep [x] = x"
| "intercalate sep (x # y # ys) = x @ sep @ intercalate sep (y # ys)"

fun collect :: "('e + 'a) list \<Rightarrow> 'e + 'a list" where
  "collect [] = Inr []"
| "collect (Inl e # rs) = Inl e"
| "collect (Inr x # rs) = (case collect rs of Inl e \<Rightarrow> Inl e | Inr xs \<Rightarrow> Inr (x # xs))"

fun js_to_string :: "jsval \<Rightarrow> js_error + string" where
  "js_to_string JUndefined = Inr ''undefined''"
| "js_to_string JNull = Inr ''null''"
| "js_to_string (JBool b) = Inr (if b then ''true'' else ''false'')"
| "js_to_string (JNum t) = Inr t"
| "js_to_string (JStr s) = Inr s"
| "js_to_string (JArr xs) =
     (case collect
             (map (\<lambda>x. if x = JNull \<or> x = JUndefined then Inr [] else js_to_string x) xs) of
        Inl e \<Rightarrow> Inl e
      | Inr parts \<Rightarrow> Inr (intercalate '','' parts))"
| "js_to_string (JObj kvs) =
     (if ''toString'' \<in> fst ` set kvs then Inl TypeError else Inr ''[object Object]'')"

text \<open>
  Keys of a \<open>Map\<close> are compared by SameValueZero: primitives by value, arrays and objects
  by identity. An array or object that \<open>JSON.parse\<close> has just built is identical to no
  key stored before.
\<close>

fun is_ref :: "jsval \<Rightarrow> bool" where
  "is_ref (JArr xs) = True"
| "is_ref (JObj kvs) = True"
| "is_ref v = False"

section \<open>The relay hub (socket.ts)\<close>

type_synonym endpoint = nat

datatype ready_state = CONNECTING | OPEN | CLOSING | CLOSED

text \<open>
  \<open>channels\<close> is a \<open>Map\<close> from channel name to a \<open>Set\<close> of sockets; both keep insertion
  order, which is the order \<open>forEach\<close> visits.
\<close>

type_synonym channels = "(jsval \<times> endpoint list) list"

definition channels_get :: "channels \<Rightarrow> jsval \<Rightarrow> endpoint list option" where
  "channels_get chans ch = (if is_ref ch then None else map_of chans ch)"

text \<open>\<open>Map.set\<close>: the value of a key already present is replaced in place, a new key goes last.\<close>

fun map_put :: "'k \<Rightarrow> 'v \<Rightarrow> ('k \<times> 'v) list \<Rightarrow> ('k \<times> 'v) list" where
  "map_put k v [] = [(k, v)]"
| "map_put k v (p # ps) = (if fst p = k then (k, v) # ps else p # map_put k v ps)"

definition channels_set :: "channels \<Rightarrow> jsval \<Rightarrow> endpoint list \<Rightarrow> channels" where
  "channels_set chans ch clients =
     (if is_ref ch then chans @ [(ch, clients)] else map_put ch clients chans)"

definition set_add :: "endpoint list \<Rightarrow> endpoint \<Rightarrow> endpoint list" where
  "set_add clients ws = (if ws \<in> set clients then clients else clients @ [ws])"

datatype hub_log =
    LogJoined string
  | LogBroadcasting string jsval
  | LogParseError js_error

type_synonym sends = "(endpoint \<times> jsval) list"

type_synonym hub_result = "channels \<times> sends \<times> hub_log list"

text \<open>
  \<open>broadcast(channelName, data, exclude)\<close>: one send to every client of the channel that
  is not \<open>exclude\<close> and whose \<open>readyState\<close> is \<open>OPEN\<close>.
\<close>

definition broadcast ::
  "(endpoint \<Rightarrow> ready_state) \<Rightarrow> channels \<Rightarrow> jsval \<Rightarrow> jsval \<Rightarrow> endpoint option \<Rightarrow> sends" where
  "broadcast ready chans channelName data exclude =
     (case channels_get chans channelName of
        None \<Rightarrow> []
      | Some clients \<Rightarrow>
          map (\<lambda>client. (client, data))
            (filter (\<lambda>client. Some client \<noteq> exclude \<and> ready client = OPEN) clients))"

text \<open>
  What the body of the \<open>try\<close> block has done when it ends: the registry, the frames sent
  and the lines logged, and the exception that ended it, if one did.
\<close>

type_synonym hub_try = "hub_result \<times> js_error option"

text \<open>
  The branch \<open>data.type === "join"\<close> of the message handler. The template literal of the
  first acknowledgment converts the channel to a string after the registry has been
  updated and before anything is sent; when that conversion throws, the update stays.
  For a channel that is an array or an object the new set holds \<open>ws\<close> alone, which
  \<open>broadcast\<close> excludes: nothing is broadcast, as here.
\<close>

definition on_join ::
  "(endpoint \<Rightarrow> ready_state) \<Rightarrow> channels \<Rightarrow> endpoint \<Rightarrow> jsval \<Rightarrow> jsval \<Rightarrow> hub_try" where
  "on_join ready chans ws ch ident =
     (if \<not> truthy ch then
        ((chans,
          [(ws, json_object [(''type'', JStr ''error''), (''message'', JStr ''channel is required'')])],
          []), None)
      else
        let clients = set_add (case channels_get chans ch of None \<Rightarrow> [] | Some cs \<Rightarrow> cs) ws;
            chans' = channels_set chans ch clients
        in (case js_to_string ch of
              Inl e \<Rightarrow> ((chans', [], []), Some e)
            | Inr name \<Rightarrow>
                ((chans',
                  [(ws, json_object
                          [(''type'', JStr ''system''),
                           (''message'', JStr (''Joined channel: '' @ name)),
                           (''channel'', ch)]),
                   (ws, json_object
                          [(''type'', JStr ''system''),
                           (''message'', json_object
                              [(''id'', ident),
                               (''result'', JStr (''Connected to channel: '' @ name))]),
                           (''channel'', ch)])]
                  @ broadcast ready chans' ch
                      (json_object
                         [(''type'', JStr ''system''),
                          (''message'', JStr ''A new user joined''),
                          (''channel'', ch)])
                      (Some ws),
                  [LogJoined name]), None)))"

text \<open>
  The branch \<open>data.type === "message"\<close>. The line is logged, with the channel converted to
  a string, before the first frame is sent.
\<close>

definition on_message ::
  "(endpoint \<Rightarrow> ready_state) \<Rightarrow> channels \<Rightarrow> endpoint \<Rightarrow> jsval \<Rightarrow> jsval \<Rightarrow> hub_try" where
  "on_message ready chans ws ch msg =
     (case channels_get chans ch of
        None \<Rightarrow>
          ((chans,
            [(ws, json_object [(''type'', JStr ''error''), (''message'', JStr ''Join a channel first'')])],
            []), None)
      | Some clients \<Rightarrow>
          if ws \<notin> set clients then
            ((chans,
              [(ws, json_object [(''type'', JStr ''error''), (''message'', JStr ''Join a channel first'')])],
              []), None)
          else
            (case js_to_string ch of
               Inl e \<Rightarrow> ((chans, [], []), Some e)
             | Inr name \<Rightarrow>
                 ((chans,
                   map (\<lambda>client.
                          (client,
                           json_object
                             [(''type'', JStr ''broadcast''),
                              (''message'', msg),
                              (''sender'', JStr (if client = ws then ''You'' else ''Remote'')),
                              (''channel'', ch)]))
                     (filter (\<lambda>client. ready client = OPEN) clients),
                   [LogBroadcasting name msg]), None)))"

text \<open>
  The body of the \<open>try\<close> block of \<open>websocket.message\<close>. \<open>JSON.parse\<close> and the read of
  \<open>data.type\<close> (of \<open>null\<close>) throw before any effect.
\<close>

definition message_try ::
  "(string \<Rightarrow> jsval option) \<Rightarrow> (endpoint \<Rightarrow> ready_state) \<Rightarrow> channels \<Rightarrow> endpoint \<Rightarrow> string
     \<Rightarrow> hub_try" where
  "message_try parse ready chans ws raw =
     (case parse raw of
        None \<Rightarrow> ((chans, [], []), Some SyntaxError)
      | Some data \<Rightarrow>
          (case get_prop data ''type'' of
             Inl e \<Rightarrow> ((chans, [], []), Some e)
           | Inr ty \<Rightarrow>
               if ty = JStr ''join'' then
                 on_join ready chans ws (js_prop data ''channel'') (js_prop data ''id'')
               else if ty = JStr ''message'' then
                 on_message ready chans ws (js_prop data ''channel'') (js_prop data ''message'')
               else ((chans, [], []), None)))"

text \<open>
  \<open>websocket.message(ws, raw)\<close>: the \<open>catch\<close> clause logs the exception and the handler
  returns.
\<close>

definition websocket_message ::
  "(string \<Rightarrow> jsval option) \<Rightarrow> (endpoint \<Rightarrow> ready_state) \<Rightarrow> channels \<Rightarrow> endpoint \<Rightarrow> string
     \<Rightarrow> hub_result" where
  "websocket_message parse ready chans ws raw =
     (case message_try parse ready chans ws raw of
        ((chans', sent, logs), None) \<Rightarrow> (chans', sent, logs)
      | ((chans', sent, logs), Some err) \<Rightarrow> (chans', sent, logs @ [LogParseError err]))"

section \<open>The command executor (code.js)\<close>

text \<open>The own keys of the object literal \<open>handlers\<close>.\<close>

definition handler_names :: "string list" where
  "handler_names =
     [''get_document_info'', ''get_selection'', ''get_node_info'', ''get_nodes_info'',
      ''get_styles'', ''get_local_components'', ''create_rectangle'', ''create_text'',
      ''create_frame'', ''set_fill_color'', ''move_node'', ''resize_node'', ''delete_node'',
      ''set_text_content'', ''export_node_as_image'']"

text \<open>
  What \<open>await Promise.resolve(f(params))\<close> comes to: \<open>Inl m\<close> when it throws (or the promise
  rejects with) an error whose \<open>message\<close> is \<open>m\<close>, \<open>Inr v\<close> when it yields \<open>v\<close>.
\<close>

type_synonym js_call = "jsval \<Rightarrow> jsval + jsval"

text \<open>
  \<open>handlers[command]\<close>. The handler bodies work on the Figma document through the plugin
  API, which is outside the repository: \<open>run name\<close> is what the own handler \<open>name\<close> comes
  to. \<open>handlers\<close> is a plain object literal, so a key that is not its own is looked up in
  its prototype: \<open>inherited key\<close> is \<open>None\<close> when there is no such property and otherwise
  what calling the inherited value comes to (every inherited value is truthy).
\<close>

definition handlers_lookup ::
  "(string \<Rightarrow> js_call option) \<Rightarrow> (string \<Rightarrow> js_call) \<Rightarrow> string \<Rightarrow> js_call option" where
  "handlers_lookup inherited run key =
     (if key \<in> set handler_names then Some (run key) else inherited key)"

text \<open>
  The \<open>message\<close> of the TypeError that the conversion of an object to a property key
  throws.
\<close>

definition conversion_error :: string where
  "conversion_error = ''Cannot convert object to primitive value''"

text \<open>
  \<open>figma.ui.onmessage\<close>. \<open>Inl\<close>: the async function rejects (reading \<open>msg.type\<close> of
  \<open>null\<close>) and nothing is posted; \<open>Inr None\<close>: it returns without posting; \<open>Inr (Some r)\<close>:
  the one \<open>figma.ui.postMessage(r)\<close>. The key conversion of \<open>handlers[command]\<close> is inside
  the \<open>try\<close> block: when it throws, the \<open>catch\<close> clause posts the error reply.
\<close>

definition ui_onmessage ::
  "(string \<Rightarrow> js_call option) \<Rightarrow> (string \<Rightarrow> js_call) \<Rightarrow> jsval \<Rightarrow> js_error + jsval option" where
  "ui_onmessage inherited run msg =
     (case get_prop msg ''type'' of
        Inl e \<Rightarrow> Inl e
      | Inr ty \<Rightarrow>
          if ty \<noteq> JStr ''figma_command'' then Inr None
          else
            let ident = js_prop msg ''id'';
                command = js_prop msg ''command'';
                params = (if js_prop msg ''params'' = JUndefined then JObj [] else js_prop msg ''params'')
            in Inr (Some
                 (case js_to_string command of
                    Inl e \<Rightarrow> JObj [(''id'', ident), (''error'', JStr conversion_error)]
                  | Inr key \<Rightarrow>
                      (case handlers_lookup inherited run key of
                         None \<Rightarrow>
                           JObj [(''id'', ident),
                                 (''error'', JStr (''Unknown command: '' @ key))]
                       | Some handler \<Rightarrow>
                           (case handler params of
                              Inl m \<Rightarrow> JObj [(''id'', ident), (''error'', m)]
                            | Inr result \<Rightarrow> JObj [(''id'', ident), (''result'', result)])))))"

section \<open>The command issuer (server.ts)\<close>

definition CHANNEL :: string where
  "CHANNEL = ''figma-mcp''"

definition TIMEOUT_MS :: nat where
  "TIMEOUT_MS = 30000"

type_synonym sock = nat

datatype outcome = Resolved jsval | Rejected js_error

text \<open>
  A timer that \<open>setTimeout\<close> has armed and that has neither fired nor been cleared. Its
  callback closes over the call's \<open>id\<close>, \<open>command\<close> and \<open>reject\<close>.
\<close>

record timer =
  t_call :: nat
  t_id :: string
  t_command :: string
  t_delay :: nat

text \<open>
  The state of the module. Invocations of \<open>sendCommand\<close> are numbered; the number stands
  for the promise the invocation returns and for the closures it creates. Sockets are
  numbered in the order \<open>new WebSocket\<close> makes them.
  \<^item> \<open>ws_var\<close> is the variable \<open>ws\<close>; \<open>ready_states ! s\<close> is the \<open>readyState\<close> of socket \<open>s\<close>.
  \<^item> \<open>waiting\<close> holds, for socket \<open>s\<close>, the invocation suspended in \<open>await connect()\<close> on the
    promise made together with \<open>s\<close>, while that promise is unsettled.
  \<^item> \<open>pending\<close> is the \<open>Map\<close> of that name: the entry under an id belongs to an invocation.
  \<^item> Four records of what has happened, oldest first: \<open>registered\<close> lists every
    \<open>pending.set\<close>, \<open>deleted\<close> every \<open>pending.delete\<close> that removed an entry, \<open>settled\<close> every
    call of an invocation's \<open>resolve\<close> or \<open>reject\<close>, \<open>sent\<close> every frame handed to an open
    socket.
  \<^item> \<open>crashed\<close>: an exception has escaped an event listener.
\<close>

record issuer =
  ws_var :: "sock option"
  ready_states :: "ready_state list"
  ncalls :: nat
  waiting :: "(sock \<times> nat \<times> string \<times> jsval) list"
  pending :: "(string \<times> nat) list"
  timers :: "timer list"
  registered :: "(string \<times> nat) list"
  deleted :: "string list"
  settled :: "(nat \<times> outcome) list"
  sent :: "(sock \<times> jsval) list"
  crashed :: bool

definition init :: issuer where
  "init = \<lparr>ws_var = None, ready_states = [], ncalls = 0, waiting = [], pending = [],
           timers = [], registered = [], deleted = [], settled = [], sent = [],
           crashed = False\<rparr>"

definition ready_of :: "issuer \<Rightarrow> sock \<Rightarrow> ready_state" where
  "ready_of st s = (if s < length (ready_states st) then ready_states st ! s else CLOSED)"

text \<open>\<open>ws?.readyState === WebSocket.OPEN\<close>\<close>

definition connected :: "issuer \<Rightarrow> bool" where
  "connected st = (case ws_var st of None \<Rightarrow> False | Some s \<Rightarrow> ready_of st s = OPEN)"

text \<open>
  \<open>ws!.send(JSON.stringify(frame))\<close>. On \<open>null\<close> the call throws a TypeError. The \<open>ws\<close>
  package throws on a socket that is still connecting, transmits on an open one, and
  discards the data (no callback is given) on one that is closing or closed.
\<close>

definition ws_send :: "issuer \<Rightarrow> jsval \<Rightarrow> js_error + issuer" where
  "ws_send st frame =
     (case ws_var st of
        None \<Rightarrow> Inl TypeError
      | Some s \<Rightarrow>
          (case ready_of st s of
             CONNECTING \<Rightarrow> Inl (Error ''WebSocket is not open: readyState 0 (CONNECTING)'')
           | OPEN \<Rightarrow> Inr (st\<lparr>sent := sent st @ [(s, frame)]\<rparr>)
           | CLOSING \<Rightarrow> Inr st
           | CLOSED \<Rightarrow> Inr st))"

text \<open>
  The two frames the issuer writes. \<open>params\<close> comes from the caller and may hold
  \<open>undefined\<close> at any depth.
\<close>

definition join_frame :: "string \<Rightarrow> jsval" where
  "join_frame uid =
     json_object [(''type'', JStr ''join''), (''channel'', JStr CHANNEL), (''id'', JStr uid)]"

definition request_frame :: "string \<Rightarrow> string \<Rightarrow> jsval \<Rightarrow> jsval" where
  "request_frame uid command params =
     json_object
       [(''type'', JStr ''message''),
        (''channel'', JStr CHANNEL),
        (''message'',
         json_object
           [(''id'', JStr uid), (''command'', JStr command), (''params'', json_value params)])]"

definition timeout_message :: "string \<Rightarrow> string" where
  "timeout_message command = ''Timeout waiting for Figma response (command: '' @ command @ '')''"

definition pending_delete :: "issuer \<Rightarrow> string \<Rightarrow> issuer" where
  "pending_delete st i =
     (if i \<in> fst ` set (pending st)
      then st\<lparr>pending := filter (\<lambda>e. fst e \<noteq> i) (pending st), deleted := deleted st @ [i]\<rparr>
      else st)"

definition clearTimeout :: "issuer \<Rightarrow> nat \<Rightarrow> issuer" where
  "clearTimeout st n = st\<lparr>timers := filter (\<lambda>t. t_call t \<noteq> n) (timers st)\<rparr>"

definition settle :: "issuer \<Rightarrow> nat \<Rightarrow> outcome \<Rightarrow> issuer" where
  "settle st n oc = st\<lparr>settled := settled st @ [(n, oc)]\<rparr>"

text \<open>
  The entry's two closures, \<open>(v) => { clearTimeout(timer); resolve(v); }\<close> and
  \<open>(e) => { clearTimeout(timer); reject(e); }\<close>, of invocation \<open>n\<close>.
\<close>

definition handler_resolve :: "issuer \<Rightarrow> nat \<Rightarrow> jsval \<Rightarrow> issuer" where
  "handler_resolve st n v = settle (clearTimeout st n) n (Resolved v)"

definition handler_reject :: "issuer \<Rightarrow> nat \<Rightarrow> js_error \<Rightarrow> issuer" where
  "handler_reject st n e = settle (clearTimeout st n) n (Rejected e)"

text \<open>
  \<open>sendCommand\<close> after \<open>await connect()\<close>: the executor of the returned promise arms the
  timer, stores the entry and only then sends. An exception of the executor rejects the
  promise.
\<close>

definition register :: "issuer \<Rightarrow> nat \<Rightarrow> string \<Rightarrow> string \<Rightarrow> issuer" where
  "register st n command uid =
     st\<lparr>timers := timers st @ [\<lparr>t_call = n, t_id = uid, t_command = command, t_delay = TIMEOUT_MS\<rparr>],
        pending := map_put uid n (pending st),
        registered := registered st @ [(uid, n)]\<rparr>"

definition sendCommand_resume :: "issuer \<Rightarrow> nat \<Rightarrow> string \<Rightarrow> jsval \<Rightarrow> string \<Rightarrow> issuer" where
  "sendCommand_resume st n command params uid =
     (let st1 = register st n command uid
      in case ws_send st1 (request_frame uid command params) of
           Inl e \<Rightarrow> settle st1 n (Rejected e)
         | Inr st2 \<Rightarrow> st2)"

text \<open>
  \<open>connect()\<close>: \<open>None\<close> when the promise is resolved at once, \<open>Some s\<close> when it is left to
  the listeners of the new socket \<open>s\<close>.
\<close>

definition connect :: "issuer \<Rightarrow> issuer \<times> sock option" where
  "connect st =
     (if connected st then (st, None)
      else
        let s = length (ready_states st)
        in (st\<lparr>ready_states := ready_states st @ [CONNECTING], ws_var := Some s\<rparr>, Some s))"

text \<open>
  \<open>sendCommand(command, params)\<close> up to the point where it is suspended or has sent;
  \<open>uid\<close> is what \<open>uuidv4()\<close> returns if the invocation gets that far at once.
\<close>

definition sendCommand :: "issuer \<Rightarrow> string \<Rightarrow> jsval \<Rightarrow> string \<Rightarrow> issuer" where
  "sendCommand st command params uid =
     (let n = ncalls st;
          p = (if params = JUndefined then JObj [] else params);
          st0 = st\<lparr>ncalls := Suc n\<rparr>
      in case connect st0 of
           (st1, None) \<Rightarrow> sendCommand_resume st1 n command p uid
         | (st1, Some s) \<Rightarrow> st1\<lparr>waiting := waiting st1 @ [(s, n, command, p)]\<rparr>)"

text \<open>
  The listener of \<open>open\<close> on socket \<open>s\<close>, whose \<open>readyState\<close> has just become \<open>OPEN\<close>: it
  sends the join through the variable \<open>ws\<close> and resolves the promise of \<open>connect\<close>, which
  resumes the invocation waiting on it. \<open>join_uid\<close> and \<open>uid\<close> are the two values of
  \<open>uuidv4()\<close>.
\<close>

definition ws_on_open :: "issuer \<Rightarrow> sock \<Rightarrow> string \<Rightarrow> string \<Rightarrow> issuer" where
  "ws_on_open st s join_uid uid =
     (case ws_send st (join_frame join_uid) of
        Inl e \<Rightarrow> st\<lparr>crashed := True\<rparr>
      | Inr st1 \<Rightarrow>
          (case map_of (waiting st1) s of
             None \<Rightarrow> st1
           | Some (n, command, p) \<Rightarrow>
               sendCommand_resume
                 (st1\<lparr>waiting := filter (\<lambda>w. fst w \<noteq> s) (waiting st1)\<rparr>) n command p uid))"

text \<open>
  The listener of \<open>message\<close>; its \<open>catch\<close> clause ignores every exception. The keys of
  \<open>pending\<close> are strings, so only a string finds an entry. \<open>new Error(msg.error)\<close> converts
  its argument to a string after the entry has been deleted: when that conversion throws,
  neither closure of the entry is called.
\<close>

definition ws_on_message :: "(string \<Rightarrow> jsval option) \<Rightarrow> issuer \<Rightarrow> string \<Rightarrow> issuer" where
  "ws_on_message parse st raw =
     (case parse raw of
        None \<Rightarrow> st
      | Some data \<Rightarrow>
          (case get_prop data ''type'' of
             Inl e \<Rightarrow> st
           | Inr ty \<Rightarrow>
               if ty = JStr ''broadcast'' \<and> truthy (js_prop data ''message'') then
                 let msg = js_prop data ''message''
                 in (case js_prop msg ''id'' of
                       JStr i \<Rightarrow>
                         (case map_of (pending st) i of
                            None \<Rightarrow> st
                          | Some n \<Rightarrow>
                              let st1 = pending_delete st i
                              in if truthy (js_prop msg ''error'') then
                                   (case js_to_string (js_prop msg ''error'') of
                                      Inl e \<Rightarrow> st1
                                    | Inr m \<Rightarrow> handler_reject st1 n (Error m))
                                 else handler_resolve st1 n (js_prop msg ''result''))
                     | _ \<Rightarrow> st)
               else st))"

text \<open>The listener of \<open>error\<close>: it rejects the promise of \<open>connect\<close>, if still unsettled.\<close>

definition ws_on_error :: "issuer \<Rightarrow> sock \<Rightarrow> string \<Rightarrow> issuer" where
  "ws_on_error st s m =
     (case map_of (waiting st) s of
        None \<Rightarrow> st
      | Some (n, command, p) \<Rightarrow>
          settle (st\<lparr>waiting := filter (\<lambda>w. fst w \<noteq> s) (waiting st)\<rparr>) n (Rejected (Error m)))"

text \<open>The listener of \<open>close\<close>.\<close>

definition ws_on_close :: "issuer \<Rightarrow> issuer" where
  "ws_on_close st = st\<lparr>ws_var := None\<rparr>"

text \<open>The callback of the timer of invocation \<open>n\<close>.\<close>

definition timer_fires :: "issuer \<Rightarrow> nat \<Rightarrow> issuer" where
  "timer_fires st n =
     (case find (\<lambda>t. t_call t = n) (timers st) of
        None \<Rightarrow> st
      | Some t \<Rightarrow>
          settle (pending_delete (clearTimeout st n) (t_id t)) n
            (Rejected (Error (timeout_message (t_command t)))))"

text \<open>
  What happens to the module, one turn of the event loop at a time. The runtime changes a
  socket's \<open>readyState\<close> before it calls a listener, calls listeners of existing sockets
  only, and emits \<open>open\<close> for a connecting socket only. After an uncaught exception the
  process is gone and nothing more happens.
  \<^item> \<open>EvCall command params uid\<close>: a caller invokes \<open>sendCommand(command, params)\<close>.
  \<^item> \<open>EvOpen s join_uid uid\<close>: socket \<open>s\<close> is connected; \<open>open\<close> is emitted.
  \<^item> \<open>EvMessage s raw\<close>: \<open>message\<close> is emitted on socket \<open>s\<close> with the text \<open>raw\<close>.
  \<^item> \<open>EvError s m\<close>: socket \<open>s\<close> fails and starts closing; \<open>error\<close> is emitted with an error
    whose message is \<open>m\<close>.
  \<^item> \<open>EvClosing s\<close>: socket \<open>s\<close> starts closing; nothing is emitted.
  \<^item> \<open>EvClose s\<close>: socket \<open>s\<close> is closed; \<open>close\<close> is emitted.
  \<^item> \<open>EvTimer n\<close>: the timer of invocation \<open>n\<close>, if armed, fires.
\<close>

datatype event =
    EvCall string jsval string
  | EvOpen sock string string
  | EvMessage sock string
  | EvError sock string
  | EvClosing sock
  | EvClose sock
  | EvTimer nat

definition set_ready :: "issuer \<Rightarrow> sock \<Rightarrow> ready_state \<Rightarrow> issuer" where
  "set_ready st s r = st\<lparr>ready_states := (ready_states st)[s := r]\<rparr>"

fun step :: "(string \<Rightarrow> jsval option) \<Rightarrow> issuer \<Rightarrow> event \<Rightarrow> issuer" where
  "step parse st (EvCall command params uid) =
     (if crashed st then st else sendCommand st command params uid)"
| "step parse st (EvOpen s join_uid uid) =
     (if crashed st \<or> ready_of st s \<noteq> CONNECTING then st
      else ws_on_open (set_ready st s OPEN) s join_uid uid)"
| "step parse st (EvMessage s raw) =
     (if crashed st \<or> \<not> s < length (ready_states st) then st else ws_on_message parse st raw)"
| "step parse st (EvError s m) =
     (if crashed st \<or> \<not> s < length (ready_states st) then st
      else ws_on_error (set_ready st s CLOSING) s m)"
| "step parse st (EvClosing s) =
     (if crashed st \<or> \<not> s < length (ready_states st) then st else set_ready st s CLOSING)"
| "step parse st (EvClose s) =
     (if crashed st \<or> \<not> s < length (ready_states st) then st
      else ws_on_close (set_ready st s CLOSED))"
| "step parse st (EvTimer n) =
     (if crashed st then st else timer_fires st n)"

definition run_events :: "(string \<Rightarrow> jsval option) \<Rightarrow> issuer \<Rightarrow> event list \<Rightarrow> issuer" where
  "run_events parse st evs = foldl (step parse) st evs"

text \<open>
  The values of \<open>uuidv4()\<close> that an event offers to a request. The identifiers of a run are
  fresh when no value is offered twice.
\<close>

fun request_ids :: "event \<Rightarrow> string list" where
  "request_ids (EvCall command params uid) = [uid]"
| "request_ids (EvOpen s join_uid uid) = [uid]"
| "request_ids ev = []"

text \<open>
  An event that ends the wait of the invocation that owns timer \<open>t\<close>: the timer firing, or
  a frame whose message carries the timer's id.
\<close>

fun settles :: "(string \<Rightarrow> jsval option) \<Rightarrow> timer \<Rightarrow> event \<Rightarrow> bool" where
  "settles parse t (EvMessage s raw) =
     (case parse raw of
        None \<Rightarrow> False
      | Some data \<Rightarrow> js_prop (js_prop data ''message'') ''id'' = JStr (t_id t))"
| "settles parse t (EvTimer n) = (n = t_call t)"
| "settles parse t ev = False"

section \<open>What the issuer's state maintains\<close>

text \<open>
  The predicates below are facts about the state, not code. \<open>finish\<close> is the common effect
  of a reply that resolves, a reply that rejects and a timer that fires while the entry
  is stored: the entry is deleted, the timer of its invocation is cleared (or has fired)
  and the invocation is settled.
\<close>

definition finish :: "issuer \<Rightarrow> string \<Rightarrow> nat \<Rightarrow> outcome \<Rightarrow> issuer" where
  "finish st i n oc =
     st\<lparr>pending := filter (\<lambda>e. fst e \<noteq> i) (pending st), deleted := deleted st @ [i],
        timers := filter (\<lambda>t. t_call t \<noteq> n) (timers st), settled := settled st @ [(n, oc)]\<rparr>"

text \<open>
  \<open>expire\<close> is the effect of a timer that fires when its entry has already left the map:
  the invocation is settled, and the timer is no longer armed.
\<close>

definition expire :: "issuer \<Rightarrow> nat \<Rightarrow> outcome \<Rightarrow> issuer" where
  "expire st n oc =
     st\<lparr>timers := filter (\<lambda>t. t_call t \<noteq> n) (timers st), settled := settled st @ [(n, oc)]\<rparr>"

text \<open>A socket that \<open>send\<close> accepts without throwing.\<close>

definition can_send :: "issuer \<Rightarrow> bool" where
  "can_send st \<longleftrightarrow> (\<exists>s. ws_var st = Some s \<and> ready_of st s \<noteq> CONNECTING)"

text \<open>
  The registrations so far have distinct ids, drawn from \<open>U\<close>, and distinct invocations;
  an invocation suspended in \<open>connect\<close> has neither registered nor been settled; the map
  holds registered entries only, one per id; an armed timer belongs to a registered
  invocation that is not settled, and an entry in the map has its timer armed and is
  neither settled nor deleted; a registered entry that has left the map has been deleted,
  and its invocation is settled or its timer is still armed; nothing is settled or deleted
  twice.
\<close>

definition reg_ok :: "string set \<Rightarrow> issuer \<Rightarrow> bool" where
  "reg_ok U st \<longleftrightarrow>
     distinct (map fst (registered st)) \<and> distinct (map snd (registered st)) \<and>
     fst ` set (registered st) \<subseteq> U \<and> (\<forall>e \<in> set (registered st). snd e < ncalls st)"

definition wait_ok :: "issuer \<Rightarrow> bool" where
  "wait_ok st \<longleftrightarrow>
     (\<forall>w \<in> set (waiting st).
        fst (snd w) < ncalls st \<and> fst (snd w) \<notin> snd ` set (registered st)
        \<and> fst (snd w) \<notin> fst ` set (settled st)) \<and>
     distinct (map (\<lambda>w. fst (snd w)) (waiting st))"

definition pend_ok :: "issuer \<Rightarrow> bool" where
  "pend_ok st \<longleftrightarrow> set (pending st) \<subseteq> set (registered st) \<and> distinct (map fst (pending st))"

definition timer_ok :: "issuer \<Rightarrow> bool" where
  "timer_ok st \<longleftrightarrow>
     (\<forall>t \<in> set (timers st).
        (t_id t, t_call t) \<in> set (registered st) \<and> t_delay t = TIMEOUT_MS
        \<and> t_call t \<notin> fst ` set (settled st)) \<and>
     distinct (map t_call (timers st))"

definition live_ok :: "issuer \<Rightarrow> bool" where
  "live_ok st \<longleftrightarrow>
     (\<forall>e \<in> set (pending st).
        (\<exists>t \<in> set (timers st). t_call t = snd e \<and> t_id t = fst e)
        \<and> snd e \<notin> fst ` set (settled st) \<and> fst e \<notin> set (deleted st))"

definition done_ok :: "issuer \<Rightarrow> bool" where
  "done_ok st \<longleftrightarrow>
     (\<forall>e \<in> set (registered st).
        e \<notin> set (pending st) \<longrightarrow>
          fst e \<in> set (deleted st)
          \<and> (snd e \<in> fst ` set (settled st)
              \<or> (\<exists>t \<in> set (timers st). t_call t = snd e \<and> t_id t = fst e)))"

definition settled_ok :: "issuer \<Rightarrow> bool" where
  "settled_ok st \<longleftrightarrow>
     (\<forall>e \<in> set (settled st). fst e < ncalls st) \<and> distinct (map fst (settled st))"

definition deleted_ok :: "issuer \<Rightarrow> bool" where
  "deleted_ok st \<longleftrightarrow> distinct (deleted st) \<and> set (deleted st) \<subseteq> fst ` set (registered st)"

definition wf :: "string set \<Rightarrow> issuer \<Rightarrow> bool" where
  "wf U st \<longleftrightarrow> reg_ok U st \<and> wait_ok st \<and> pend_ok st \<and> timer_ok st \<and> live_ok st
     \<and> done_ok st \<and> settled_ok st \<and> deleted_ok st"

text \<open>
  The order of frames on the wire: \<open>join_first js out\<close> holds when every frame of \<open>out\<close> that
  is not a join goes to a socket that is in \<open>js\<close> or has been sent a join earlier in \<open>out\<close>.
\<close>

definition is_join :: "jsval \<Rightarrow> bool" where
  "is_join f \<longleftrightarrow> get_prop f ''type'' = Inr (JStr ''join'')"


definition joined :: "(sock \<times> jsval) list \<Rightarrow> sock set" where
  "joined out = {s. \<exists>f. (s, f) \<in> set out \<and> is_join f}"



section \<open>The hub's message handler\<close>

text \<open>
  C9. A frame that \<open>JSON.parse\<close> rejects: the handler returns, with the failure logged,
  nothing sent to anyone and the channel registry as it was.
\<close>

theorem hub_drops_malformed_frame:
  assumes "parse raw = None"
  shows "websocket_message parse ready chans ws raw = (chans, [], [LogParseError SyntaxError])"
  using assms by (simp add: websocket_message_def message_try_def)

theorem hub_drops_malformed_frame_witness:
  "websocket_message (\<lambda>raw. None) (\<lambda>e. OPEN) [(JStr ''c1'', [1, 2])] 1 ''{oops''
     = ([(JStr ''c1'', [1, 2])], [], [LogParseError SyntaxError])"
  by (rule hub_drops_malformed_frame) simp

text \<open>
  C10. A join whose \<open>channel\<close> is missing or empty (or falsy in any other way): the one
  send is the notice \<open>channel is required\<close> to the sender, and the registry is unchanged.
\<close>

theorem hub_join_without_channel:
  assumes "parse raw = Some data"
    and "get_prop data ''type'' = Inr (JStr ''join'')"
    and "\<not> truthy (js_prop data ''channel'')"
  shows "websocket_message parse ready chans ws raw =
           (chans,
            [(ws, JObj [(''type'', JStr ''error''), (''message'', JStr ''channel is required'')])],
            [])"
  using assms by (simp add: websocket_message_def message_try_def on_join_def json_object_def)

theorem hub_join_without_channel_witness:
  "websocket_message (\<lambda>raw. Some (JObj [(''type'', JStr ''join'')])) (\<lambda>e. OPEN)
       [(JStr ''c1'', [1, 2])] 3 ''raw''
     = ([(JStr ''c1'', [1, 2])],
        [(3, JObj [(''type'', JStr ''error''), (''message'', JStr ''channel is required'')])], [])
   \<and> websocket_message (\<lambda>raw. Some (JObj [(''type'', JStr ''join''), (''channel'', JStr [])]))
       (\<lambda>e. OPEN) [(JStr ''c1'', [1, 2])] 3 ''raw''
     = ([(JStr ''c1'', [1, 2])],
        [(3, JObj [(''type'', JStr ''error''), (''message'', JStr ''channel is required'')])], [])"
proof
  show "websocket_message (\<lambda>raw. Some (JObj [(''type'', JStr ''join'')])) (\<lambda>e. OPEN)
       [(JStr ''c1'', [1, 2])] 3 ''raw''
     = ([(JStr ''c1'', [1, 2])],
        [(3, JObj [(''type'', JStr ''error''), (''message'', JStr ''channel is required'')])], [])"
    by (rule hub_join_without_channel[where data = "JObj [(''type'', JStr ''join'')]"])
       (simp_all add: js_prop_def)
  show "websocket_message (\<lambda>raw. Some (JObj [(''type'', JStr ''join''), (''channel'', JStr [])]))
       (\<lambda>e. OPEN) [(JStr ''c1'', [1, 2])] 3 ''raw''
     = ([(JStr ''c1'', [1, 2])],
        [(3, JObj [(''type'', JStr ''error''), (''message'', JStr ''channel is required'')])], [])"
    by (rule hub_join_without_channel
          [where data = "JObj [(''type'', JStr ''join''), (''channel'', JStr [])]"])
       (simp_all add: js_prop_def)
qed

text \<open>
  C7. A message into a channel that does not exist or that the sender is not in: the one
  send is the notice \<open>Join a channel first\<close> to the sender; the registry is unchanged.
\<close>

theorem hub_message_before_join:
  assumes "parse raw = Some data"
    and "get_prop data ''type'' = Inr (JStr ''message'')"
    and "\<forall>clients. channels_get chans (js_prop data ''channel'') = Some clients \<longrightarrow> ws \<notin> set clients"
  shows "websocket_message parse ready chans ws raw =
           (chans,
            [(ws, JObj [(''type'', JStr ''error''), (''message'', JStr ''Join a channel first'')])],
            [])"
  using assms
  by (auto simp add: websocket_message_def message_try_def on_message_def json_object_def
      split: option.splits)

theorem hub_message_before_join_witness:
  "websocket_message
       (\<lambda>raw. Some (JObj [(''type'', JStr ''message''), (''channel'', JStr ''c1''),
                           (''message'', JObj [(''foo'', JNum ''1'')])]))
       (\<lambda>e. OPEN) [(JStr ''c1'', [1, 2])] 3 ''raw''
     = ([(JStr ''c1'', [1, 2])],
        [(3, JObj [(''type'', JStr ''error''), (''message'', JStr ''Join a channel first'')])], [])
   \<and> websocket_message
       (\<lambda>raw. Some (JObj [(''type'', JStr ''message''), (''channel'', JStr ''c2''),
                           (''message'', JObj [(''foo'', JNum ''1'')])]))
       (\<lambda>e. OPEN) [(JStr ''c1'', [1, 2])] 1 ''raw''
     = ([(JStr ''c1'', [1, 2])],
        [(1, JObj [(''type'', JStr ''error''), (''message'', JStr ''Join a channel first'')])], [])"
proof
  show "websocket_message
       (\<lambda>raw. Some (JObj [(''type'', JStr ''message''), (''channel'', JStr ''c1''),
                           (''message'', JObj [(''foo'', JNum ''1'')])]))
       (\<lambda>e. OPEN) [(JStr ''c1'', [1, 2])] 3 ''raw''
     = ([(JStr ''c1'', [1, 2])],
        [(3, JObj [(''type'', JStr ''error''), (''message'', JStr ''Join a channel first'')])], [])"
    by (rule hub_message_before_join
          [where data = "JObj [(''type'', JStr ''message''), (''channel'', JStr ''c1''),
                               (''message'', JObj [(''foo'', JNum ''1'')])]"])
       (simp_all add: js_prop_def channels_get_def)
  show "websocket_message
       (\<lambda>raw. Some (JObj [(''type'', JStr ''message''), (''channel'', JStr ''c2''),
                           (''message'', JObj [(''foo'', JNum ''1'')])]))
       (\<lambda>e. OPEN) [(JStr ''c1'', [1, 2])] 1 ''raw''
     = ([(JStr ''c1'', [1, 2])],
        [(1, JObj [(''type'', JStr ''error''), (''message'', JStr ''Join a channel first'')])], [])"
    by (rule hub_message_before_join
          [where data = "JObj [(''type'', JStr ''message''), (''channel'', JStr ''c2''),
                               (''message'', JObj [(''foo'', JNum ''1'')])]"])
       (simp_all add: js_prop_def channels_get_def)
qed

text \<open>
  C6, as the code has it. A member of channel \<open>c\<close> sends \<open>m\<close> into \<open>c\<close>: every member whose
  \<open>readyState\<close> is \<open>OPEN\<close>, the sender included, is sent the broadcast envelope, marked
  \<open>You\<close> for the sender and \<open>Remote\<close> for the others, in the order of joining; a member
  whose socket is not open is passed over. The registry is unchanged.
\<close>

theorem hub_message_broadcast:
  assumes "parse raw = Some (JObj kvs)"
    and "map_of kvs ''type'' = Some (JStr ''message'')"
    and "map_of kvs ''channel'' = Some c"
    and "map_of kvs ''message'' = Some m"
    and "c \<noteq> JUndefined" and "m \<noteq> JUndefined"
    and "channels_get chans c = Some clients"
    and "ws \<in> set clients"
  shows "\<exists>name. js_to_string c = Inr name
           \<and> websocket_message parse ready chans ws raw =
               (chans,
                map (\<lambda>client.
                       (client,
                        JObj [(''type'', JStr ''broadcast''),
                              (''message'', m),
                              (''sender'', JStr (if client = ws then ''You'' else ''Remote'')),
                              (''channel'', c)]))
                  (filter (\<lambda>client. ready client = OPEN) clients),
                [LogBroadcasting name m])"
proof -
  from assms(7) have "\<not> is_ref c" by (auto simp: channels_get_def split: if_splits)
  then obtain name where n: "js_to_string c = Inr name" by (cases c) auto
  have "websocket_message parse ready chans ws raw =
               (chans,
                map (\<lambda>client.
                       (client,
                        JObj [(''type'', JStr ''broadcast''),
                              (''message'', m),
                              (''sender'', JStr (if client = ws then ''You'' else ''Remote'')),
                              (''channel'', c)]))
                  (filter (\<lambda>client. ready client = OPEN) clients),
                [LogBroadcasting name m])"
    using assms n
    by (simp add: websocket_message_def message_try_def on_message_def json_object_def js_prop_def)
  with n show ?thesis by blast
qed

text \<open>
  The round trip of the specification: endpoints 1 and 2 join \<open>c1\<close>, then 1 sends
  \<open>{"foo":1}\<close>; with both sockets open, 2 is sent the envelope marked \<open>Remote\<close>.
\<close>

theorem hub_message_broadcast_witness:
  "websocket_message
       (\<lambda>raw. Some (JObj [(''type'', JStr ''message''), (''channel'', JStr ''c1''),
                           (''message'', JObj [(''foo'', JNum ''1'')])]))
       (\<lambda>e. OPEN)
       (fst (websocket_message
               (\<lambda>raw. Some (JObj [(''type'', JStr ''join''), (''channel'', JStr ''c1'')]))
               (\<lambda>e. OPEN)
               (fst (websocket_message
                       (\<lambda>raw. Some (JObj [(''type'', JStr ''join''), (''channel'', JStr ''c1'')]))
                       (\<lambda>e. OPEN) [] 1 ''join''))
               2 ''join''))
       1 ''send''
     = ([(JStr ''c1'', [1, 2])],
        [(1, JObj [(''type'', JStr ''broadcast''), (''message'', JObj [(''foo'', JNum ''1'')]),
                   (''sender'', JStr ''You''), (''channel'', JStr ''c1'')]),
         (2, JObj [(''type'', JStr ''broadcast''), (''message'', JObj [(''foo'', JNum ''1'')]),
                   (''sender'', JStr ''Remote''), (''channel'', JStr ''c1'')])],
        [LogBroadcasting ''c1'' (JObj [(''foo'', JNum ''1'')])])"
proof -
  have joined:
    "fst (websocket_message
               (\<lambda>raw. Some (JObj [(''type'', JStr ''join''), (''channel'', JStr ''c1'')]))
               (\<lambda>e. OPEN)
               (fst (websocket_message
                       (\<lambda>raw. Some (JObj [(''type'', JStr ''join''), (''channel'', JStr ''c1'')]))
                       (\<lambda>e. OPEN) [] 1 ''join''))
               2 ''join'') = [(JStr ''c1'', [1, 2])]"
    by (simp add: websocket_message_def message_try_def on_join_def js_prop_def
        channels_get_def channels_set_def set_add_def Let_def)
  show ?thesis
    unfolding joined
    using hub_message_broadcast
      [where kvs = "[(''type'', JStr ''message''), (''channel'', JStr ''c1''),
                     (''message'', JObj [(''foo'', JNum ''1'')])]"
         and parse = "\<lambda>raw. Some (JObj [(''type'', JStr ''message''), (''channel'', JStr ''c1''),
                                          (''message'', JObj [(''foo'', JNum ''1'')])])"
         and c = "JStr ''c1''" and m = "JObj [(''foo'', JNum ''1'')]"
         and chans = "[(JStr ''c1'', [1, 2])]" and clients = "[1, 2]" and ws = 1
         and ready = "\<lambda>e. OPEN" and raw = "''send''"]
    by (simp add: channels_get_def)
qed

text \<open>
  C6 as stated fails: endpoint 2 is a member of \<open>c1\<close> but its socket is closing, and the
  send of endpoint 1 reaches endpoint 1 alone.
\<close>

theorem hub_message_skips_closing_member:
  "channels_get [(JStr ''c1'', [1, 2])] (JStr ''c1'') = Some [1, 2]
   \<and> websocket_message
       (\<lambda>raw. Some (JObj [(''type'', JStr ''message''), (''channel'', JStr ''c1''),
                           (''message'', JObj [(''foo'', JNum ''1'')])]))
       (\<lambda>e. if e = 2 then CLOSING else OPEN) [(JStr ''c1'', [1, 2])] 1 ''send''
     = ([(JStr ''c1'', [1, 2])],
        [(1, JObj [(''type'', JStr ''broadcast''), (''message'', JObj [(''foo'', JNum ''1'')]),
                   (''sender'', JStr ''You''), (''channel'', JStr ''c1'')])],
        [LogBroadcasting ''c1'' (JObj [(''foo'', JNum ''1'')])])"
  by (simp add: websocket_message_def message_try_def on_message_def json_object_def
      js_prop_def channels_get_def)

section \<open>The executor's dispatch\<close>

text \<open>
  C8, as the code has it. For a message of type \<open>figma_command\<close> whose \<open>command\<close> is a string
  (or converts to one, \<open>key\<close>): a command that is neither a key of the table nor a name the
  table inherits is answered \<open>{id, error: "Unknown command: " + command}\<close>; a handler that
  throws is answered \<open>{id, error: message}\<close>; a handler that returns is answered
  \<open>{id, result: value}\<close>. And whatever the command, one reply is posted and it carries the
  request's id.
\<close>

theorem executor_reply:
  assumes "get_prop msg ''type'' = Inr (JStr ''figma_command'')"
    and "ident = js_prop msg ''id''"
    and "params = (if js_prop msg ''params'' = JUndefined then JObj [] else js_prop msg ''params'')"
  shows "(\<forall>key. js_to_string (js_prop msg ''command'') = Inr key
               \<and> key \<notin> set handler_names \<and> inherited key = None \<longrightarrow>
            ui_onmessage inherited ownrun msg =
              Inr (Some (JObj [(''id'', ident), (''error'', JStr (''Unknown command: '' @ key))])))
       \<and> (\<forall>key m. js_to_string (js_prop msg ''command'') = Inr key
               \<and> key \<in> set handler_names \<and> ownrun key params = Inl m \<longrightarrow>
            ui_onmessage inherited ownrun msg = Inr (Some (JObj [(''id'', ident), (''error'', m)])))
       \<and> (\<forall>key v. js_to_string (js_prop msg ''command'') = Inr key
               \<and> key \<in> set handler_names \<and> ownrun key params = Inr v \<longrightarrow>
            ui_onmessage inherited ownrun msg = Inr (Some (JObj [(''id'', ident), (''result'', v)])))
       \<and> (\<exists>r. ui_onmessage inherited ownrun msg = Inr (Some r) \<and> get_prop r ''id'' = Inr ident)"
  using assms
  by (auto simp add: ui_onmessage_def handlers_lookup_def Let_def split: option.splits sum.splits)

theorem executor_reply_witness:
  "ui_onmessage (\<lambda>key. None)
       (\<lambda>name params. if name = ''get_node_info'' then Inl (JStr ''Node not found: 1:2'')
                       else Inr (JObj [(''count'', JNum ''0'')]))
       (JObj [(''type'', JStr ''figma_command''), (''id'', JStr ''7''), (''command'', JStr ''zoom'')])
     = Inr (Some (JObj [(''id'', JStr ''7''), (''error'', JStr ''Unknown command: zoom'')]))
   \<and> ui_onmessage (\<lambda>key. None)
       (\<lambda>name params. if name = ''get_node_info'' then Inl (JStr ''Node not found: 1:2'')
                       else Inr (JObj [(''count'', JNum ''0'')]))
       (JObj [(''type'', JStr ''figma_command''), (''id'', JStr ''8''),
              (''command'', JStr ''get_node_info''), (''params'', JObj [(''nodeId'', JStr ''1:2'')])])
     = Inr (Some (JObj [(''id'', JStr ''8''), (''error'', JStr ''Node not found: 1:2'')]))
   \<and> ui_onmessage (\<lambda>key. None)
       (\<lambda>name params. if name = ''get_node_info'' then Inl (JStr ''Node not found: 1:2'')
                       else Inr (JObj [(''count'', JNum ''0'')]))
       (JObj [(''type'', JStr ''figma_command''), (''id'', JStr ''9''),
              (''command'', JStr ''get_selection'')])
     = Inr (Some (JObj [(''id'', JStr ''9''), (''result'', JObj [(''count'', JNum ''0'')])]))"
proof (intro conjI)
  show "ui_onmessage (\<lambda>key. None)
       (\<lambda>name params. if name = ''get_node_info'' then Inl (JStr ''Node not found: 1:2'')
                       else Inr (JObj [(''count'', JNum ''0'')]))
       (JObj [(''type'', JStr ''figma_command''), (''id'', JStr ''7''), (''command'', JStr ''zoom'')])
     = Inr (Some (JObj [(''id'', JStr ''7''), (''error'', JStr ''Unknown command: zoom'')]))"
    using executor_reply
      [where msg = "JObj [(''type'', JStr ''figma_command''), (''id'', JStr ''7''),
                          (''command'', JStr ''zoom'')]"
         and ident = "JStr ''7''" and params = "JObj []" and inherited = "\<lambda>key. None"
         and ownrun = "\<lambda>name params. if name = ''get_node_info''
                                       then Inl (JStr ''Node not found: 1:2'')
                                       else Inr (JObj [(''count'', JNum ''0'')])"]
    by (simp add: js_prop_def handler_names_def)
  show "ui_onmessage (\<lambda>key. None)
       (\<lambda>name params. if name = ''get_node_info'' then Inl (JStr ''Node not found: 1:2'')
                       else Inr (JObj [(''count'', JNum ''0'')]))
       (JObj [(''type'', JStr ''figma_command''), (''id'', JStr ''8''),
              (''command'', JStr ''get_node_info''), (''params'', JObj [(''nodeId'', JStr ''1:2'')])])
     = Inr (Some (JObj [(''id'', JStr ''8''), (''error'', JStr ''Node not found: 1:2'')]))"
    using executor_reply
      [where msg = "JObj [(''type'', JStr ''figma_command''), (''id'', JStr ''8''),
                          (''command'', JStr ''get_node_info''),
                          (''params'', JObj [(''nodeId'', JStr ''1:2'')])]"
         and ident = "JStr ''8''" and params = "JObj [(''nodeId'', JStr ''1:2'')]"
         and inherited = "\<lambda>key. None"
         and ownrun = "\<lambda>name params. if name = ''get_node_info''
                                       then Inl (JStr ''Node not found: 1:2'')
                                       else Inr (JObj [(''count'', JNum ''0'')])"]
    by (simp add: js_prop_def handler_names_def)
  show "ui_onmessage (\<lambda>key. None)
       (\<lambda>name params. if name = ''get_node_info'' then Inl (JStr ''Node not found: 1:2'')
                       else Inr (JObj [(''count'', JNum ''0'')]))
       (JObj [(''type'', JStr ''figma_command''), (''id'', JStr ''9''),
              (''command'', JStr ''get_selection'')])
     = Inr (Some (JObj [(''id'', JStr ''9''), (''result'', JObj [(''count'', JNum ''0'')])]))"
    using executor_reply
      [where msg = "JObj [(''type'', JStr ''figma_command''), (''id'', JStr ''9''),
                          (''command'', JStr ''get_selection'')]"
         and ident = "JStr ''9''" and params = "JObj []" and inherited = "\<lambda>key. None"
         and ownrun = "\<lambda>name params. if name = ''get_node_info''
                                       then Inl (JStr ''Node not found: 1:2'')
                                       else Inr (JObj [(''count'', JNum ''0'')])"]
    by (simp add: js_prop_def handler_names_def)
qed

text \<open>
  C8 as stated fails: the error text of an unknown command is not \<open>unknown command\<close>; it
  names the command.
\<close>

theorem executor_unknown_command_text:
  "ui_onmessage (\<lambda>key. None) (\<lambda>name params. Inr JNull)
       (JObj [(''type'', JStr ''figma_command''), (''id'', JStr ''7''), (''command'', JStr ''foo''),
              (''params'', JObj [])])
     = Inr (Some (JObj [(''id'', JStr ''7''), (''error'', JStr ''Unknown command: foo'')]))
   \<and> ui_onmessage (\<lambda>key. None) (\<lambda>name params. Inr JNull)
       (JObj [(''type'', JStr ''figma_command''), (''id'', JStr ''7''), (''command'', JStr ''foo''),
              (''params'', JObj [])])
     \<noteq> Inr (Some (JObj [(''id'', JStr ''7''), (''error'', JStr ''unknown command'')]))"
  by (simp add: ui_onmessage_def handlers_lookup_def handler_names_def js_prop_def)

text \<open>
  A command that names a property the table inherits is not answered as unknown. Every
  object literal inherits \<open>constructor\<close>, the function \<open>Object\<close>, which returns an object
  argument as it is: the reply to the command \<open>constructor\<close> is a result, the parameters.
\<close>

lemma executor_inherited_name:
  assumes "get_prop msg ''type'' = Inr (JStr ''figma_command'')"
    and "js_prop msg ''command'' = JStr ''constructor''"
    and "js_prop msg ''params'' = JObj kvs"
    and "inherited ''constructor'' = Some Inr"
  shows "ui_onmessage inherited ownrun msg =
           Inr (Some (JObj [(''id'', js_prop msg ''id''), (''result'', JObj kvs)]))"
  using assms by (simp add: ui_onmessage_def handlers_lookup_def handler_names_def)

section \<open>The issuer: one entry, one settlement\<close>

text \<open>
  Each operation of the module keeps the invariant \<open>wf\<close>, provided the id it registers is
  new; so does every run from the initial state whose identifiers are fresh.
\<close>

lemma map_put_fresh: "k \<notin> fst ` set ps \<Longrightarrow> map_put k v ps = ps @ [(k, v)]"
  by (induction ps) auto

lemma pending_fresh: "reg_ok U st \<Longrightarrow> pend_ok st \<Longrightarrow> u \<notin> U \<Longrightarrow> u \<notin> fst ` set (pending st)"
  unfolding reg_ok_def pend_ok_def by (meson image_mono subsetD)

lemma register_fields:
  "u \<notin> fst ` set (pending st) \<Longrightarrow>
   register st n c u =
     st\<lparr>timers := timers st @ [\<lparr>t_call = n, t_id = u, t_command = c, t_delay = TIMEOUT_MS\<rparr>],
        pending := pending st @ [(u, n)], registered := registered st @ [(u, n)]\<rparr>"
  by (simp add: register_def map_put_fresh)

lemma reg_ok_register:
  "reg_ok U st \<Longrightarrow> u \<notin> U \<Longrightarrow> n < ncalls st \<Longrightarrow> n \<notin> snd ` set (registered st) \<Longrightarrow>
   reg_ok (insert u U) (register st n c u)"
  unfolding reg_ok_def register_def by (auto simp: subset_iff)

lemma wait_ok_register:
  "wait_ok st \<Longrightarrow> n \<notin> (\<lambda>w. fst (snd w)) ` set (waiting st) \<Longrightarrow> wait_ok (register st n c u)"
  unfolding wait_ok_def register_def by (auto simp: image_iff)

lemma pend_ok_register:
  "pend_ok st \<Longrightarrow> u \<notin> fst ` set (pending st) \<Longrightarrow> pend_ok (register st n c u)"
  unfolding pend_ok_def by (auto simp: register_fields)

lemma timer_ok_register:
  "timer_ok st \<Longrightarrow> n \<notin> snd ` set (registered st) \<Longrightarrow> n \<notin> fst ` set (settled st) \<Longrightarrow>
   timer_ok (register st n c u)"
  unfolding timer_ok_def register_def by (force simp: image_iff)

lemma live_ok_register:
  "live_ok st \<Longrightarrow> u \<notin> fst ` set (pending st) \<Longrightarrow> n \<notin> fst ` set (settled st) \<Longrightarrow>
   u \<notin> set (deleted st) \<Longrightarrow> live_ok (register st n c u)"
  unfolding live_ok_def by (auto simp: register_fields)

lemma done_ok_register:
  "done_ok st \<Longrightarrow> u \<notin> fst ` set (pending st) \<Longrightarrow> done_ok (register st n c u)"
  unfolding done_ok_def by (auto simp: register_fields)

lemma settled_ok_register: "settled_ok st \<Longrightarrow> settled_ok (register st n c u)"
  unfolding settled_ok_def register_def by simp

lemma deleted_ok_register: "deleted_ok st \<Longrightarrow> deleted_ok (register st n c u)"
  unfolding deleted_ok_def register_def by auto

lemma wf_register:
  assumes "wf U st" "u \<notin> U" "n < ncalls st" "n \<notin> snd ` set (registered st)"
    "n \<notin> fst ` set (settled st)" "n \<notin> (\<lambda>w. fst (snd w)) ` set (waiting st)"
  shows "wf (insert u U) (register st n c u)"
proof -
  have fresh: "u \<notin> fst ` set (pending st)"
    using assms(1,2) pending_fresh unfolding wf_def by blast
  have undel: "u \<notin> set (deleted st)"
    using assms(1,2) unfolding wf_def deleted_ok_def reg_ok_def by blast
  show ?thesis
    using assms fresh undel unfolding wf_def
    by (simp add: reg_ok_register wait_ok_register pend_ok_register timer_ok_register
        live_ok_register done_ok_register settled_ok_register deleted_ok_register)
qed

lemma handler_reject_finish:
  "i \<in> fst ` set (pending st) \<Longrightarrow>
   handler_reject (pending_delete st i) n e = finish st i n (Rejected e)"
  by (simp add: handler_reject_def pending_delete_def clearTimeout_def settle_def finish_def)

lemma handler_resolve_finish:
  "i \<in> fst ` set (pending st) \<Longrightarrow>
   handler_resolve (pending_delete st i) n v = finish st i n (Resolved v)"
  by (simp add: handler_resolve_def pending_delete_def clearTimeout_def settle_def finish_def)

lemma timer_fires_finish:
  "find (\<lambda>t. t_call t = n) (timers st) = Some t \<Longrightarrow> t_id t \<in> fst ` set (pending st) \<Longrightarrow>
   timer_fires st n = finish st (t_id t) n (Rejected (Error (timeout_message (t_command t))))"
  by (simp add: timer_fires_def pending_delete_def clearTimeout_def settle_def finish_def)

lemma pend_unique:
  "pend_ok st \<Longrightarrow> (i, n) \<in> set (pending st) \<Longrightarrow> (i, m) \<in> set (pending st) \<Longrightarrow> m = n"
  unfolding pend_ok_def by (meson eq_key_imp_eq_value)

lemma call_unique:
  "reg_ok U st \<Longrightarrow> pend_ok st \<Longrightarrow> (i, n) \<in> set (pending st) \<Longrightarrow> (j, n) \<in> set (pending st)
   \<Longrightarrow> j = i"
proof -
  assume a: "reg_ok U st" "pend_ok st" "(i, n) \<in> set (pending st)" "(j, n) \<in> set (pending st)"
  then have "(i, n) \<in> set (registered st)" "(j, n) \<in> set (registered st)"
    unfolding pend_ok_def by auto
  moreover have "distinct (map fst (map (\<lambda>(a, b). (b, a)) (registered st)))"
    using a(1) unfolding reg_ok_def by (simp add: comp_def case_prod_unfold)
  ultimately show ?thesis
    using eq_key_imp_eq_value[of "map (\<lambda>(a, b). (b, a)) (registered st)" n j i] by force
qed

lemma reg_ok_finish: "reg_ok U st \<Longrightarrow> reg_ok U (finish st i n oc)"
  unfolding reg_ok_def finish_def by simp

lemma wait_ok_finish:
  "wait_ok st \<Longrightarrow> pend_ok st \<Longrightarrow> (i, n) \<in> set (pending st) \<Longrightarrow> wait_ok (finish st i n oc)"
  unfolding wait_ok_def pend_ok_def finish_def by (fastforce simp: image_iff)

lemma pend_ok_finish: "pend_ok st \<Longrightarrow> pend_ok (finish st i n oc)"
  unfolding pend_ok_def finish_def by (auto simp: distinct_map_filter)

lemma timer_ok_finish: "timer_ok st \<Longrightarrow> timer_ok (finish st i n oc)"
  unfolding timer_ok_def finish_def by (auto simp: distinct_map_filter)

lemma live_ok_finish:
  assumes "live_ok st" "reg_ok U st" "pend_ok st" "(i, n) \<in> set (pending st)"
  shows "live_ok (finish st i n oc)"
proof -
  have "snd e \<noteq> n" if "e \<in> set (pending st)" "fst e \<noteq> i" for e
    using call_unique[OF assms(2,3,4), of "fst e"] that by auto
  then show ?thesis
    using assms(1) unfolding live_ok_def finish_def by (fastforce simp: image_iff)
qed

lemma done_ok_finish:
  assumes "done_ok st" "pend_ok st" "(i, n) \<in> set (pending st)"
  shows "done_ok (finish st i n oc)"
  unfolding done_ok_def
proof (intro ballI impI)
  fix e
  assume e: "e \<in> set (registered (finish st i n oc))" "e \<notin> set (pending (finish st i n oc))"
  have r: "e \<in> set (registered st)" using e(1) by (simp add: finish_def)
  show "fst e \<in> set (deleted (finish st i n oc))
        \<and> (snd e \<in> fst ` set (settled (finish st i n oc))
            \<or> (\<exists>t \<in> set (timers (finish st i n oc)). t_call t = snd e \<and> t_id t = fst e))"
  proof (cases "e \<in> set (pending st)")
    case True
    then have "fst e = i" using e(2) by (simp add: finish_def)
    then have "e = (i, n)"
      using pend_unique[OF assms(2,3), of "snd e"] True by (cases e) auto
    then show ?thesis by (simp add: finish_def)
  next
    case False
    then have d: "fst e \<in> set (deleted st)"
      and o: "snd e \<in> fst ` set (settled st)
              \<or> (\<exists>t \<in> set (timers st). t_call t = snd e \<and> t_id t = fst e)"
      using assms(1) r unfolding done_ok_def by auto
    show ?thesis
    proof (cases "snd e = n")
      case True
      then show ?thesis using d by (simp add: finish_def)
    next
      case False
      then show ?thesis using d o by (auto simp: finish_def)
    qed
  qed
qed

lemma settled_ok_finish:
  "settled_ok st \<Longrightarrow> live_ok st \<Longrightarrow> reg_ok U st \<Longrightarrow> pend_ok st \<Longrightarrow> (i, n) \<in> set (pending st)
   \<Longrightarrow> settled_ok (finish st i n oc)"
  unfolding settled_ok_def live_ok_def reg_ok_def pend_ok_def finish_def
  by (fastforce simp: image_iff)

lemma deleted_ok_finish:
  "deleted_ok st \<Longrightarrow> live_ok st \<Longrightarrow> pend_ok st \<Longrightarrow> (i, n) \<in> set (pending st)
   \<Longrightarrow> deleted_ok (finish st i n oc)"
  unfolding deleted_ok_def live_ok_def pend_ok_def finish_def
  by (fastforce simp: image_iff)

lemma wf_finish:
  "wf U st \<Longrightarrow> (i, n) \<in> set (pending st) \<Longrightarrow> wf U (finish st i n oc)"
  unfolding wf_def
  by (simp add: reg_ok_finish wait_ok_finish pend_ok_finish timer_ok_finish
      live_ok_finish[where U = U] done_ok_finish settled_ok_finish[where U = U]
      deleted_ok_finish)

text \<open>
  The entry is deleted and no closure of it is called: the timer stays armed and the
  invocation unsettled.
\<close>

lemma pending_delete_fields:
  "i \<in> fst ` set (pending st) \<Longrightarrow>
   pending_delete st i =
     st\<lparr>pending := filter (\<lambda>e. fst e \<noteq> i) (pending st), deleted := deleted st @ [i]\<rparr>"
  by (simp add: pending_delete_def)

lemma pend_ok_delete: "pend_ok st \<Longrightarrow> pend_ok (pending_delete st i)"
  unfolding pend_ok_def pending_delete_def by (auto simp: distinct_map_filter)

lemma live_ok_delete: "live_ok st \<Longrightarrow> live_ok (pending_delete st i)"
  unfolding live_ok_def pending_delete_def by auto

lemma done_ok_delete:
  assumes "done_ok st" "live_ok st"
  shows "done_ok (pending_delete st i)"
proof (cases "i \<in> fst ` set (pending st)")
  case False
  then show ?thesis using assms(1) by (simp add: pending_delete_def)
next
  case True
  show ?thesis
    unfolding done_ok_def
  proof (intro ballI impI)
    fix e
    assume e: "e \<in> set (registered (pending_delete st i))"
      "e \<notin> set (pending (pending_delete st i))"
    have r: "e \<in> set (registered st)" using e(1) True by (simp add: pending_delete_fields)
    show "fst e \<in> set (deleted (pending_delete st i))
          \<and> (snd e \<in> fst ` set (settled (pending_delete st i))
              \<or> (\<exists>t \<in> set (timers (pending_delete st i)). t_call t = snd e \<and> t_id t = fst e))"
    proof (cases "e \<in> set (pending st)")
      case p: True
      then have "fst e = i" using e(2) True by (simp add: pending_delete_fields)
      moreover have "\<exists>t \<in> set (timers st). t_call t = snd e \<and> t_id t = fst e"
        using assms(2) p unfolding live_ok_def by blast
      ultimately show ?thesis by (simp add: pending_delete_fields[OF True])
    next
      case False
      then have d: "fst e \<in> set (deleted st)"
        and o: "snd e \<in> fst ` set (settled st)
                \<or> (\<exists>t \<in> set (timers st). t_call t = snd e \<and> t_id t = fst e)"
        using assms(1) r unfolding done_ok_def by blast+
      then show ?thesis by (simp add: pending_delete_fields[OF True])
    qed
  qed
qed

lemma deleted_ok_delete:
  assumes "deleted_ok st" "live_ok st" "pend_ok st"
  shows "deleted_ok (pending_delete st i)"
proof (cases "i \<in> fst ` set (pending st)")
  case False
  then show ?thesis using assms(1) by (simp add: pending_delete_def)
next
  case True
  then obtain n where n: "(i, n) \<in> set (pending st)" by force
  have "i \<notin> set (deleted st)" using assms(2) n unfolding live_ok_def by force
  moreover have "i \<in> fst ` set (registered st)" using assms(3) n unfolding pend_ok_def by force
  ultimately show ?thesis
    using assms(1) unfolding deleted_ok_def by (simp add: pending_delete_fields[OF True])
qed

lemma wf_delete: "wf U st \<Longrightarrow> wf U (pending_delete st i)"
proof -
  assume a: "wf U st"
  have "reg_ok U (pending_delete st i) = reg_ok U st"
    "wait_ok (pending_delete st i) = wait_ok st"
    "timer_ok (pending_delete st i) = timer_ok st"
    "settled_ok (pending_delete st i) = settled_ok st"
    by (simp_all add: reg_ok_def wait_ok_def timer_ok_def settled_ok_def pending_delete_def)
  then show ?thesis
    using a unfolding wf_def
    by (simp add: pend_ok_delete live_ok_delete done_ok_delete deleted_ok_delete)
qed

text \<open>
  The timer of an invocation whose entry has already left the map fires: the invocation
  is settled.
\<close>

lemma timer_fires_expire:
  "find (\<lambda>t. t_call t = n) (timers st) = Some t \<Longrightarrow> t_id t \<notin> fst ` set (pending st) \<Longrightarrow>
   timer_fires st n = expire st n (Rejected (Error (timeout_message (t_command t))))"
  by (simp add: timer_fires_def pending_delete_def clearTimeout_def settle_def expire_def)

lemma reg_call_unique:
  "reg_ok U st \<Longrightarrow> (i, n) \<in> set (registered st) \<Longrightarrow> (j, n) \<in> set (registered st) \<Longrightarrow> j = i"
proof -
  assume a: "reg_ok U st" "(i, n) \<in> set (registered st)" "(j, n) \<in> set (registered st)"
  have "distinct (map fst (map (\<lambda>(a, b). (b, a)) (registered st)))"
    using a(1) unfolding reg_ok_def by (simp add: comp_def case_prod_unfold)
  then show ?thesis
    using a(2,3) eq_key_imp_eq_value[of "map (\<lambda>(a, b). (b, a)) (registered st)" n j i] by force
qed

lemma reg_id_unique:
  "reg_ok U st \<Longrightarrow> (i, n) \<in> set (registered st) \<Longrightarrow> (i, m) \<in> set (registered st) \<Longrightarrow> m = n"
  unfolding reg_ok_def by (meson eq_key_imp_eq_value)

lemma wf_expire:
  assumes a: "wf U st" and t: "t \<in> set (timers st)" "t_call t = n"
    and k: "t_id t \<notin> fst ` set (pending st)"
  shows "wf U (expire st n oc)"
proof -
  have r: "(t_id t, n) \<in> set (registered st)" and u: "n \<notin> fst ` set (settled st)"
    using a t unfolding wf_def timer_ok_def by auto
  have ro: "reg_ok U st" and po: "pend_ok st" using a unfolding wf_def by auto
  have np: "snd e \<noteq> n" if "e \<in> set (pending st)" for e
  proof
    assume "snd e = n"
    then have "(fst e, n) \<in> set (registered st)" using that po unfolding pend_ok_def by auto
    then have "fst e = t_id t" using reg_call_unique[OF ro r] by blast
    then show False using that k by force
  qed
  have 1: "reg_ok U (expire st n oc)" using ro by (simp add: reg_ok_def expire_def)
  have 2: "wait_ok (expire st n oc)"
    using a r unfolding wf_def wait_ok_def expire_def by (fastforce simp: image_iff)
  have 3: "pend_ok (expire st n oc)" using po by (simp add: pend_ok_def expire_def)
  have 4: "timer_ok (expire st n oc)"
    using a unfolding wf_def timer_ok_def expire_def by (auto simp: distinct_map_filter)
  have 5: "live_ok (expire st n oc)"
    using a np unfolding wf_def live_ok_def expire_def by (fastforce simp: image_iff)
  have 6: "done_ok (expire st n oc)"
    unfolding done_ok_def
  proof (intro ballI impI)
    fix e
    assume e: "e \<in> set (registered (expire st n oc))" "e \<notin> set (pending (expire st n oc))"
    then have d: "fst e \<in> set (deleted st)"
      and o: "snd e \<in> fst ` set (settled st)
              \<or> (\<exists>t \<in> set (timers st). t_call t = snd e \<and> t_id t = fst e)"
      using a unfolding wf_def done_ok_def expire_def by auto
    show "fst e \<in> set (deleted (expire st n oc))
          \<and> (snd e \<in> fst ` set (settled (expire st n oc))
              \<or> (\<exists>t \<in> set (timers (expire st n oc)). t_call t = snd e \<and> t_id t = fst e))"
    proof (cases "snd e = n")
      case True
      then show ?thesis using d by (simp add: expire_def)
    next
      case False
      then show ?thesis using d o by (auto simp: expire_def)
    qed
  qed
  have 7: "settled_ok (expire st n oc)"
    using a u r unfolding wf_def settled_ok_def reg_ok_def expire_def by (fastforce simp: image_iff)
  have 8: "deleted_ok (expire st n oc)"
    using a unfolding wf_def deleted_ok_def expire_def by simp
  show ?thesis unfolding wf_def using 1 2 3 4 5 6 7 8 by blast
qed

lemma ready_of_frame [simp]:
  "ready_of (st\<lparr>sent := a\<rparr>) s = ready_of st s"
  "ready_of (st\<lparr>waiting := b\<rparr>) s = ready_of st s"
  "ready_of (st\<lparr>ncalls := c\<rparr>) s = ready_of st s"
  "ready_of (st\<lparr>crashed := d\<rparr>) s = ready_of st s"
  by (simp_all add: ready_of_def)

lemma can_send_frame [simp]:
  "can_send (st\<lparr>sent := a\<rparr>) = can_send st"
  "can_send (st\<lparr>waiting := b\<rparr>) = can_send st"
  "can_send (st\<lparr>ncalls := c\<rparr>) = can_send st"
  "can_send (st\<lparr>crashed := d\<rparr>) = can_send st"
  by (simp_all add: can_send_def)

lemma ws_send_after: "ws_send st f = Inr st' \<Longrightarrow> can_send st'"
proof -
  assume a: "ws_send st f = Inr st'"
  then obtain s where s: "ws_var st = Some s" by (cases "ws_var st") (simp_all add: ws_send_def)
  show ?thesis
  proof (cases "ready_of st s")
    case CONNECTING
    then show ?thesis using a s by (simp add: ws_send_def)
  next
    case OPEN
    then have "st' = st\<lparr>sent := sent st @ [(s, f)]\<rparr>" using a s by (simp add: ws_send_def)
    moreover have "can_send st" using s OPEN by (simp add: can_send_def)
    ultimately show ?thesis by simp
  next
    case CLOSING
    then have "st' = st" using a s by (simp add: ws_send_def)
    then show ?thesis using s CLOSING by (simp add: can_send_def)
  next
    case CLOSED
    then have "st' = st" using a s by (simp add: ws_send_def)
    then show ?thesis using s CLOSED by (simp add: can_send_def)
  qed
qed

lemma wf_cong:
  "ncalls st' = ncalls st \<Longrightarrow> waiting st' = waiting st \<Longrightarrow> pending st' = pending st \<Longrightarrow>
   timers st' = timers st \<Longrightarrow> registered st' = registered st \<Longrightarrow> deleted st' = deleted st \<Longrightarrow>
   settled st' = settled st \<Longrightarrow> wf U st' = wf U st"
  by (simp add: wf_def reg_ok_def wait_ok_def pend_ok_def timer_ok_def live_ok_def done_ok_def
      settled_ok_def deleted_ok_def)

lemma wf_mono: "wf U st \<Longrightarrow> U \<subseteq> V \<Longrightarrow> wf V st"
  unfolding wf_def reg_ok_def by blast

lemma ws_send_cases:
  "ws_send st f = Inr st' \<Longrightarrow>
   can_send st \<and> (st' = st \<or> (\<exists>s. ws_var st = Some s \<and> ready_of st s = OPEN \<and> st' = st\<lparr>sent := sent st @ [(s, f)]\<rparr>))"
  by (auto simp: ws_send_def can_send_def split: option.splits ready_state.splits)

lemma ws_send_can_send: "can_send st \<Longrightarrow> \<exists>st'. ws_send st f = Inr st'"
  by (auto simp: ws_send_def can_send_def split: option.splits ready_state.splits)

lemma ws_send_wf: "ws_send st f = Inr st' \<Longrightarrow> wf U st' = wf U st"
  by (rule wf_cong) (auto dest!: ws_send_cases)

lemma can_send_register [simp]: "can_send (register st n c u) = can_send st"
  by (simp add: can_send_def register_def ready_of_def)

lemma wf_resume:
  assumes "wf U st" "can_send st" "u \<notin> U" "n < ncalls st" "n \<notin> snd ` set (registered st)"
    "n \<notin> fst ` set (settled st)" "n \<notin> (\<lambda>w. fst (snd w)) ` set (waiting st)"
  shows "wf (insert u U) (sendCommand_resume st n c p u)"
proof -
  obtain st' where s: "ws_send (register st n c u) (request_frame u c p) = Inr st'"
    using ws_send_can_send[of "register st n c u"] assms(2) by auto
  have "wf (insert u U) st'"
    using ws_send_wf[OF s] wf_register[OF assms(1,3,4,5,6,7)] by simp
  then show ?thesis by (simp add: sendCommand_resume_def s)
qed

lemma wf_ncalls: "wf U st \<Longrightarrow> wf U (st\<lparr>ncalls := Suc (ncalls st)\<rparr>)"
proof -
  assume a: "wf U st"
  let ?st = "st\<lparr>ncalls := Suc (ncalls st)\<rparr>"
  have "reg_ok U ?st" using a unfolding wf_def reg_ok_def by (auto simp: less_Suc_eq)
  moreover have "wait_ok ?st" using a unfolding wf_def wait_ok_def by (auto simp: less_Suc_eq)
  moreover have "pend_ok ?st" using a unfolding wf_def pend_ok_def by simp
  moreover have "timer_ok ?st" using a unfolding wf_def timer_ok_def by simp
  moreover have "live_ok ?st" using a unfolding wf_def live_ok_def by simp
  moreover have "done_ok ?st" using a unfolding wf_def done_ok_def by simp
  moreover have "settled_ok ?st" using a unfolding wf_def settled_ok_def by (auto simp: less_Suc_eq)
  moreover have "deleted_ok ?st" using a unfolding wf_def deleted_ok_def by simp
  ultimately show ?thesis unfolding wf_def by simp
qed

lemma wf_fresh_call:
  assumes "wf U st"
  shows "ncalls st \<notin> snd ` set (registered st)" "ncalls st \<notin> fst ` set (settled st)"
    "ncalls st \<notin> (\<lambda>w. fst (snd w)) ` set (waiting st)"
  using assms unfolding wf_def reg_ok_def settled_ok_def wait_ok_def by fastforce+

lemma wf_enqueue:
  assumes a: "wf U st"
  shows "wf U (st\<lparr>ncalls := Suc (ncalls st), waiting := waiting st @ [(s, ncalls st, c, p)]\<rparr>)"
proof -
  let ?st = "st\<lparr>ncalls := Suc (ncalls st), waiting := waiting st @ [(s, ncalls st, c, p)]\<rparr>"
  note f = wf_fresh_call[OF a]
  have "reg_ok U ?st" using a unfolding wf_def reg_ok_def by (auto simp: less_Suc_eq)
  moreover have "wait_ok ?st" using a f unfolding wf_def wait_ok_def by (auto simp: less_Suc_eq)
  moreover have "pend_ok ?st" using a unfolding wf_def pend_ok_def by simp
  moreover have "timer_ok ?st" using a unfolding wf_def timer_ok_def by simp
  moreover have "live_ok ?st" using a unfolding wf_def live_ok_def by simp
  moreover have "done_ok ?st" using a unfolding wf_def done_ok_def by simp
  moreover have "settled_ok ?st" using a unfolding wf_def settled_ok_def by (auto simp: less_Suc_eq)
  moreover have "deleted_ok ?st" using a unfolding wf_def deleted_ok_def by simp
  ultimately show ?thesis unfolding wf_def by simp
qed

lemma connected_ncalls: "connected (st\<lparr>ncalls := k\<rparr>) = connected st"
  by (simp add: connected_def ready_of_def split: option.splits)

lemma sendCommand_connected:
  "connected st \<Longrightarrow> sendCommand st c p u =
     sendCommand_resume (st\<lparr>ncalls := Suc (ncalls st)\<rparr>) (ncalls st) c
          (if p = JUndefined then JObj [] else p) u"
  by (simp add: sendCommand_def connect_def connected_ncalls Let_def)

lemma sendCommand_unconnected:
  "\<not> connected st \<Longrightarrow> sendCommand st c p u =
     st\<lparr>ncalls := Suc (ncalls st),
        ready_states := ready_states st @ [CONNECTING],
        ws_var := Some (length (ready_states st)),
        waiting := waiting st @ [(length (ready_states st), ncalls st, c,
                                           if p = JUndefined then JObj [] else p)]\<rparr>"
  by (simp add: sendCommand_def connect_def connected_ncalls Let_def)

lemma can_send_connected: "connected st \<Longrightarrow> can_send st"
  by (auto simp: connected_def can_send_def split: option.splits)

lemma wf_sendCommand:
  assumes "wf U st" "u \<notin> U"
  shows "wf (insert u U) (sendCommand st c p u)"
proof (cases "connected st")
  case True
  let ?st0 = "st\<lparr>ncalls := Suc (ncalls st)\<rparr>"
  have cs: "can_send ?st0" using can_send_connected[OF True] by simp
  have f: "ncalls st < ncalls ?st0" "ncalls st \<notin> snd ` set (registered ?st0)"
    "ncalls st \<notin> fst ` set (settled ?st0)" "ncalls st \<notin> (\<lambda>w. fst (snd w)) ` set (waiting ?st0)"
    using wf_fresh_call[OF assms(1)] by simp_all
  show ?thesis
    unfolding sendCommand_connected[OF True]
    by (rule wf_resume[OF wf_ncalls[OF assms(1)] cs assms(2) f])
next
  case False
  have "wf U (sendCommand st c p u) =
        wf U (st\<lparr>ncalls := Suc (ncalls st),
                 waiting := waiting st @ [(length (ready_states st), ncalls st, c,
                                           if p = JUndefined then JObj [] else p)]\<rparr>)"
    unfolding sendCommand_unconnected[OF False] by (rule wf_cong) simp_all
  with wf_enqueue[OF assms(1)] have "wf U (sendCommand st c p u)" by blast
  then show ?thesis by (rule wf_mono) blast
qed

lemma wf_dequeue:
  assumes a: "wf U st" and m: "map_of (waiting st) s = Some (n, c, p)"
  shows "wf U (st\<lparr>waiting := filter (\<lambda>w. fst w \<noteq> s) (waiting st)\<rparr>)"
    and "n < ncalls st" and "n \<notin> snd ` set (registered st)" and "n \<notin> fst ` set (settled st)"
    and "n \<notin> (\<lambda>w. fst (snd w)) ` set (filter (\<lambda>w. fst w \<noteq> s) (waiting st))"
proof -
  let ?st = "st\<lparr>waiting := filter (\<lambda>w. fst w \<noteq> s) (waiting st)\<rparr>"
  have mem: "(s, n, c, p) \<in> set (waiting st)" using m by (rule map_of_SomeD)
  have w: "wait_ok st" using a unfolding wf_def by simp
  have "fst (snd (s, n, c, p)) < ncalls st \<and> fst (snd (s, n, c, p)) \<notin> snd ` set (registered st)
        \<and> fst (snd (s, n, c, p)) \<notin> fst ` set (settled st)"
    using w mem unfolding wait_ok_def by blast
  then show "n < ncalls st" "n \<notin> snd ` set (registered st)" "n \<notin> fst ` set (settled st)"
    by simp_all
  have d: "distinct (map (\<lambda>w. fst (snd w)) (waiting st))" using w unfolding wait_ok_def by simp
  have inj: "x = (s, n, c, p)" if "x \<in> set (waiting st)" "fst (snd x) = n" for x
    using inj_onD[OF conjunct2[OF d[unfolded distinct_map]], of x "(s, n, c, p)"] that mem by simp
  show "n \<notin> (\<lambda>w. fst (snd w)) ` set (filter (\<lambda>w. fst w \<noteq> s) (waiting st))"
  proof
    assume "n \<in> (\<lambda>w. fst (snd w)) ` set (filter (\<lambda>w. fst w \<noteq> s) (waiting st))"
    then obtain x where x: "x \<in> set (waiting st)" "fst x \<noteq> s" "fst (snd x) = n" by auto
    then show False using inj[OF x(1,3)] by simp
  qed
  have "reg_ok U ?st" using a unfolding wf_def reg_ok_def by simp
  moreover have "wait_ok ?st" using w unfolding wait_ok_def by (simp add: distinct_map_filter)
  moreover have "pend_ok ?st" using a unfolding wf_def pend_ok_def by simp
  moreover have "timer_ok ?st" using a unfolding wf_def timer_ok_def by simp
  moreover have "live_ok ?st" using a unfolding wf_def live_ok_def by simp
  moreover have "done_ok ?st" using a unfolding wf_def done_ok_def by simp
  moreover have "settled_ok ?st" using a unfolding wf_def settled_ok_def by simp
  moreover have "deleted_ok ?st" using a unfolding wf_def deleted_ok_def by simp
  ultimately show "wf U ?st" unfolding wf_def by simp
qed

lemma wf_settle_unregistered:
  assumes a: "wf U st" and n: "n < ncalls st" "n \<notin> snd ` set (registered st)"
    "n \<notin> fst ` set (settled st)" "n \<notin> (\<lambda>w. fst (snd w)) ` set (waiting st)"
  shows "wf U (settle st n oc)"
proof -
  let ?st = "settle st n oc"
  have "reg_ok U ?st" using a unfolding wf_def reg_ok_def settle_def by simp
  moreover have "wait_ok ?st" using a n unfolding wf_def wait_ok_def settle_def by (auto simp: image_iff)
  moreover have "pend_ok ?st" using a unfolding wf_def pend_ok_def settle_def by simp
  moreover have "timer_ok ?st" using a n(2) unfolding wf_def timer_ok_def settle_def
    by (fastforce simp: image_iff)
  moreover have "live_ok ?st" using a n(2) unfolding wf_def live_ok_def pend_ok_def settle_def
    by (fastforce simp: image_iff)
  moreover have "done_ok ?st" using a unfolding wf_def done_ok_def settle_def by auto
  moreover have "settled_ok ?st" using a n unfolding wf_def settled_ok_def settle_def by auto
  moreover have "deleted_ok ?st" using a unfolding wf_def deleted_ok_def settle_def by simp
  ultimately show ?thesis unfolding wf_def by simp
qed

lemma wf_ws_on_error: "wf U st \<Longrightarrow> wf U (ws_on_error st s m)"
proof (cases "map_of (waiting st) s")
  case None
  then show "wf U st \<Longrightarrow> wf U (ws_on_error st s m)" by (simp add: ws_on_error_def)
next
  case (Some w)
  assume a: "wf U st"
  obtain n c p where w: "w = (n, c, p)" by (cases w) auto
  note d = wf_dequeue[OF a Some[unfolded w]]
  have "wf U (settle (st\<lparr>waiting := filter (\<lambda>w. fst w \<noteq> s) (waiting st)\<rparr>) n (Rejected (Error m)))"
    by (rule wf_settle_unregistered[OF d(1)]) (use d in simp_all)
  then show "wf U (ws_on_error st s m)" by (simp add: ws_on_error_def Some w)
qed

lemma wf_ws_on_close: "wf U (ws_on_close st) = wf U st"
  by (rule wf_cong) (simp_all add: ws_on_close_def)

lemma wf_set_ready: "wf U (set_ready st s r) = wf U st"
  by (rule wf_cong) (simp_all add: set_ready_def)

lemma wf_crashed: "wf U (st\<lparr>crashed := b\<rparr>) = wf U st"
  by (rule wf_cong) simp_all

lemma ws_on_message_cases:
  "ws_on_message parse st raw = st
   \<or> (\<exists>data msg i n.
        parse raw = Some data \<and> get_prop data ''type'' = Inr (JStr ''broadcast'')
        \<and> msg = js_prop data ''message'' \<and> truthy msg
        \<and> js_prop msg ''id'' = JStr i \<and> (i, n) \<in> set (pending st)
        \<and> map_of (pending st) i = Some n
        \<and> ws_on_message parse st raw =
            (if truthy (js_prop msg ''error'') then
               (case js_to_string (js_prop msg ''error'') of
                  Inl e \<Rightarrow> pending_delete st i
                | Inr m \<Rightarrow> handler_reject (pending_delete st i) n (Error m))
             else handler_resolve (pending_delete st i) n (js_prop msg ''result'')))"
proof (cases "parse raw")
  case None
  then show ?thesis by (simp add: ws_on_message_def)
next
  case (Some data)
  show ?thesis
  proof (cases "get_prop data ''type''")
    case (Inl e)
    then show ?thesis by (simp add: ws_on_message_def Some)
  next
    case (Inr ty)
    show ?thesis
    proof (cases "ty = JStr ''broadcast'' \<and> truthy (js_prop data ''message'')")
      case False
      then have "ws_on_message parse st raw = st"
        by (cases "ty = JStr ''broadcast''") (simp_all add: ws_on_message_def Some Inr)
      then show ?thesis by (rule disjI1)
    next
      case True
      show ?thesis
      proof (cases "\<exists>i. js_prop (js_prop data ''message'') ''id'' = JStr i")
        case False
        then have "ws_on_message parse st raw = st"
          using True
          by (cases "js_prop (js_prop data ''message'') ''id''")
             (simp_all add: ws_on_message_def Some Inr)
        then show ?thesis by (rule disjI1)
      next
        case i': True
        then obtain i where i: "js_prop (js_prop data ''message'') ''id'' = JStr i" by blast
        show ?thesis
        proof (cases "map_of (pending st) i")
          case None
          then have "ws_on_message parse st raw = st"
            using True by (simp add: ws_on_message_def Some Inr i)
          then show ?thesis by (rule disjI1)
        next
          case n: (Some n)
          have m: "(i, n) \<in> set (pending st)" using n by (rule map_of_SomeD)
          have "ws_on_message parse st raw =
              (if truthy (js_prop (js_prop data ''message'') ''error'') then
                 (case js_to_string (js_prop (js_prop data ''message'') ''error'') of
                    Inl e \<Rightarrow> pending_delete st i
                  | Inr m \<Rightarrow> handler_reject (pending_delete st i) n (Error m))
               else handler_resolve (pending_delete st i) n
                      (js_prop (js_prop data ''message'') ''result''))"
            using True n by (simp add: ws_on_message_def Some Inr i Let_def)
          then show ?thesis
            using True i m n Some Inr by blast
        qed
      qed
    qed
  qed
qed

text \<open>The two things a frame can do to a stored entry, and the frame that does nothing.\<close>

lemma ws_on_message_finish:
  "ws_on_message parse st raw = st
   \<or> (\<exists>data i n.
        parse raw = Some data \<and> js_prop (js_prop data ''message'') ''id'' = JStr i
        \<and> (i, n) \<in> set (pending st) \<and> ws_on_message parse st raw = pending_delete st i)
   \<or> (\<exists>data i n oc.
        parse raw = Some data \<and> js_prop (js_prop data ''message'') ''id'' = JStr i
        \<and> (i, n) \<in> set (pending st) \<and> ws_on_message parse st raw = finish st i n oc)"
proof -
  from ws_on_message_cases[of parse st raw] show ?thesis
  proof (elim disjE exE conjE)
    assume "ws_on_message parse st raw = st"
    then show ?thesis by (rule disjI1)
  next
    fix data msg i n
    assume d: "parse raw = Some data" "msg = js_prop data ''message''" "js_prop msg ''id'' = JStr i"
      and p: "(i, n) \<in> set (pending st)"
      and e: "ws_on_message parse st raw =
            (if truthy (js_prop msg ''error'') then
               (case js_to_string (js_prop msg ''error'') of
                  Inl e \<Rightarrow> pending_delete st i
                | Inr m \<Rightarrow> handler_reject (pending_delete st i) n (Error m))
             else handler_resolve (pending_delete st i) n (js_prop msg ''result''))"
    have k: "i \<in> fst ` set (pending st)" using p by force
    have d': "js_prop (js_prop data ''message'') ''id'' = JStr i" using d by simp
    show ?thesis
    proof (cases "truthy (js_prop msg ''error'')")
      case False
      then have "ws_on_message parse st raw = finish st i n (Resolved (js_prop msg ''result''))"
        using e by (simp add: handler_resolve_finish[OF k])
      then show ?thesis using p d(1) d' by blast
    next
      case True
      show ?thesis
      proof (cases "js_to_string (js_prop msg ''error'')")
        case (Inl x)
        then have "ws_on_message parse st raw = pending_delete st i" using e True by simp
        then show ?thesis using p d(1) d' by blast
      next
        case (Inr m)
        then have "ws_on_message parse st raw = finish st i n (Rejected (Error m))"
          using e True by (simp add: handler_reject_finish[OF k])
        then show ?thesis using p d(1) d' by blast
      qed
    qed
  qed
qed

lemma wf_ws_on_message: "wf U st \<Longrightarrow> wf U (ws_on_message parse st raw)"
proof -
  assume a: "wf U st"
  from ws_on_message_finish[of parse st raw] show ?thesis
  proof (elim disjE exE conjE)
    assume "ws_on_message parse st raw = st"
    then show ?thesis using a by simp
  next
    fix data i n
    assume "ws_on_message parse st raw = pending_delete st i"
    then show ?thesis using wf_delete[OF a] by simp
  next
    fix data i n oc
    assume "(i, n) \<in> set (pending st)" "ws_on_message parse st raw = finish st i n oc"
    then show ?thesis using wf_finish[OF a] by simp
  qed
qed

lemma timer_fires_cases:
  assumes a: "wf U st" and f: "find (\<lambda>t. t_call t = n) (timers st) = Some t"
  shows "t \<in> set (timers st) \<and> t_call t = n
         \<and> ((t_id t, n) \<in> set (pending st)
              \<and> timer_fires st n
                  = finish st (t_id t) n (Rejected (Error (timeout_message (t_command t))))
            \<or> t_id t \<notin> fst ` set (pending st)
              \<and> timer_fires st n
                  = expire st n (Rejected (Error (timeout_message (t_command t)))))"
proof -
  have t: "t \<in> set (timers st)" "t_call t = n"
    using f by (auto simp: find_Some_iff)
  have r: "(t_id t, n) \<in> set (registered st)"
    using a t unfolding wf_def timer_ok_def by auto
  have ro: "reg_ok U st" and po: "pend_ok st" using a unfolding wf_def by auto
  show ?thesis
  proof (cases "t_id t \<in> fst ` set (pending st)")
    case True
    then obtain m where m: "(t_id t, m) \<in> set (pending st)" by force
    then have "(t_id t, m) \<in> set (registered st)" using po unfolding pend_ok_def by auto
    then have "m = n" using reg_id_unique[OF ro r] by blast
    then show ?thesis using t m timer_fires_finish[OF f True] by simp
  next
    case False
    then show ?thesis using t timer_fires_expire[OF f False] by simp
  qed
qed

lemma wf_timer_fires: "wf U st \<Longrightarrow> wf U (timer_fires st n)"
proof (cases "find (\<lambda>t. t_call t = n) (timers st)")
  case None
  then show "wf U st \<Longrightarrow> wf U (timer_fires st n)" by (simp add: timer_fires_def)
next
  case (Some t)
  assume a: "wf U st"
  from timer_fires_cases[OF a Some] show "wf U (timer_fires st n)"
  proof (elim conjE disjE)
    assume "(t_id t, n) \<in> set (pending st)"
      "timer_fires st n = finish st (t_id t) n (Rejected (Error (timeout_message (t_command t))))"
    then show ?thesis using wf_finish[OF a] by simp
  next
    assume "t \<in> set (timers st)" "t_call t = n" "t_id t \<notin> fst ` set (pending st)"
      "timer_fires st n = expire st n (Rejected (Error (timeout_message (t_command t))))"
    then show ?thesis using wf_expire[OF a] by simp
  qed
qed

lemma wf_ws_on_open:
  assumes a: "wf U st" and u: "u \<notin> U"
  shows "wf (insert u U) (ws_on_open st s ju u)"
proof (cases "ws_send st (join_frame ju)")
  case (Inl e)
  have "wf U (ws_on_open st s ju u)" using a by (simp add: ws_on_open_def Inl wf_crashed)
  then show ?thesis by (rule wf_mono) blast
next
  case (Inr st1)
  have w1: "wf U st1" using ws_send_wf[OF Inr] a by simp
  have c1: "can_send st1" by (rule ws_send_after[OF Inr])
  show ?thesis
  proof (cases "map_of (waiting st1) s")
    case None
    have "wf U (ws_on_open st s ju u)" using w1 by (simp add: ws_on_open_def Inr None)
    then show ?thesis by (rule wf_mono) blast
  next
    case (Some w)
    obtain n c p where w: "w = (n, c, p)" by (cases w) auto
    let ?st2 = "st1\<lparr>waiting := filter (\<lambda>w. fst w \<noteq> s) (waiting st1)\<rparr>"
    note d = wf_dequeue[OF w1 Some[unfolded w]]
    have c2: "can_send ?st2" using c1 by simp
    have "wf (insert u U) (sendCommand_resume ?st2 n c p u)"
      by (rule wf_resume[OF d(1) c2 u]) (use d in simp_all)
    then show ?thesis by (simp add: ws_on_open_def Inr Some w)
  qed
qed


lemma wf_step:
  assumes a: "wf U st" and f: "set (request_ids ev) \<inter> U = {}"
  shows "wf (U \<union> set (request_ids ev)) (step parse st ev)"
proof (cases ev)
  case (EvCall c p u)
  have u: "u \<notin> U" using f EvCall by simp
  have m: "wf (insert u U) st" by (rule wf_mono[OF a]) blast
  have "wf (insert u U) (step parse st ev)"
    unfolding EvCall step.simps using m wf_sendCommand[OF a u] by (cases "crashed st") simp_all
  then show ?thesis using EvCall by simp
next
  case (EvOpen s ju u)
  have u: "u \<notin> U" using f EvOpen by simp
  have m: "wf (insert u U) st" by (rule wf_mono[OF a]) blast
  have o: "wf U (set_ready st s OPEN)" using a by (simp add: wf_set_ready)
  have "wf (insert u U) (step parse st ev)"
    unfolding EvOpen step.simps using m wf_ws_on_open[OF o u]
    by (cases "crashed st \<or> ready_of st s \<noteq> CONNECTING") simp_all
  then show ?thesis using EvOpen by simp
next
  case (EvMessage s raw)
  show ?thesis
    unfolding EvMessage step.simps using a wf_ws_on_message[OF a]
    by (cases "crashed st \<or> \<not> s < length (ready_states st)") simp_all
next
  case (EvError s m)
  have o: "wf U (set_ready st s CLOSING)" using a by (simp add: wf_set_ready)
  show ?thesis
    unfolding EvError step.simps using a wf_ws_on_error[OF o]
    by (cases "crashed st \<or> \<not> s < length (ready_states st)") simp_all
next
  case (EvClosing s)
  have o: "wf U (set_ready st s CLOSING)" using a by (simp add: wf_set_ready)
  show ?thesis
    unfolding EvClosing step.simps using a o
    by (cases "crashed st \<or> \<not> s < length (ready_states st)") simp_all
next
  case (EvClose s)
  have o: "wf U (ws_on_close (set_ready st s CLOSED))" using a by (simp add: wf_set_ready wf_ws_on_close)
  show ?thesis
    unfolding EvClose step.simps using a o
    by (cases "crashed st \<or> \<not> s < length (ready_states st)") simp_all
next
  case (EvTimer n)
  show ?thesis
    unfolding EvTimer step.simps using a wf_timer_fires[OF a]
    by (cases "crashed st") simp_all
qed

lemma wf_init: "wf {} init"
  by (simp add: wf_def reg_ok_def wait_ok_def pend_ok_def timer_ok_def live_ok_def done_ok_def
      settled_ok_def deleted_ok_def init_def)

lemma run_events_Cons: "run_events parse st (ev # evs) = run_events parse (step parse st ev) evs"
  by (simp add: run_events_def)

lemma wf_run_from:
  "wf U st \<Longrightarrow> distinct (concat (map request_ids evs)) \<Longrightarrow>
   set (concat (map request_ids evs)) \<inter> U = {} \<Longrightarrow>
   wf (U \<union> set (concat (map request_ids evs))) (run_events parse st evs)"
proof (induction evs arbitrary: U st)
  case Nil
  then show ?case by (simp add: run_events_def)
next
  case (Cons ev evs)
  have p2: "distinct (request_ids ev)" "distinct (concat (map request_ids evs))"
    "set (request_ids ev) \<inter> set (concat (map request_ids evs)) = {}"
    using Cons.prems(2) by simp_all
  have p3: "set (request_ids ev) \<inter> U = {}" "set (concat (map request_ids evs)) \<inter> U = {}"
    using Cons.prems(3) by (simp_all add: Int_Un_distrib2)
  have 1: "wf (U \<union> set (request_ids ev)) (step parse st ev)"
    by (rule wf_step[OF Cons.prems(1) p3(1)])
  have 3: "set (concat (map request_ids evs)) \<inter> (U \<union> set (request_ids ev)) = {}"
    using p2(3) p3(2) by blast
  have e: "U \<union> set (request_ids ev) \<union> set (concat (map request_ids evs))
           = U \<union> set (concat (map request_ids (ev # evs)))" by (simp add: Un_assoc)
  show ?case
    unfolding run_events_Cons using Cons.IH[OF 1 p2(2) 3] unfolding e .
qed

lemma wf_run:
  assumes "distinct (concat (map request_ids evs))"
  shows "wf (set (concat (map request_ids evs))) (run_events parse init evs)"
proof -
  have "wf ({} \<union> set (concat (map request_ids evs))) (run_events parse init evs)"
    by (rule wf_run_from[OF wf_init assms]) simp
  then show ?thesis by simp
qed

section \<open>The issuer: a join goes first\<close>


lemma is_join_request_frame [simp]: "\<not> is_join (request_frame u c p)"
  by (simp add: is_join_def request_frame_def json_object_def)

lemma joined_append [simp]: "joined (xs @ ys) = joined xs \<union> joined ys"
  by (auto simp: joined_def)

lemma joined_single [simp]: "joined [(s, f)] = (if is_join f then {s} else {})"
  by (auto simp: joined_def)














lemma ws_on_error_fields:
  "ws_var (ws_on_error st s m) = ws_var st"
  "ready_states (ws_on_error st s m) = ready_states st"
  "sent (ws_on_error st s m) = sent st"
  "crashed (ws_on_error st s m) = crashed st"
  "pending (ws_on_error st s m) = pending st"
  "timers (ws_on_error st s m) = timers st"
  "registered (ws_on_error st s m) = registered st"
  "deleted (ws_on_error st s m) = deleted st"
  by (simp_all add: ws_on_error_def settle_def split: option.splits)




section \<open>The issuer: what is sent has been registered\<close>


lemma ws_send_fields:
  assumes "ws_send st f = Inr st'"
  shows "set (sent st') \<subseteq> insert (the (ws_var st), f) (set (sent st))"
    and "registered st' = registered st" and "timers st' = timers st" and "pending st' = pending st"
    and "settled st' = settled st" and "deleted st' = deleted st"
  using ws_send_cases[OF assms] by auto


lemma timers_resume:
  "set (timers st) \<subseteq> set (timers (sendCommand_resume st n c p u))"
proof (cases "ws_send (register st n c u) (request_frame u c p)")
  case (Inl e)
  then have "sendCommand_resume st n c p u = settle (register st n c u) n (Rejected e)"
    by (simp add: sendCommand_resume_def)
  then show ?thesis by (auto simp: settle_def register_def)
next
  case (Inr st2)
  then have "sendCommand_resume st n c p u = st2" by (simp add: sendCommand_resume_def)
  then show ?thesis using ws_send_fields(3)[OF Inr] by (auto simp: register_def)
qed






section \<open>The issuer: an armed timer stays armed until its request is answered\<close>

lemma timers_ws_on_open: "set (timers st) \<subseteq> set (timers (ws_on_open st s ju u))"
proof (cases "ws_send st (join_frame ju)")
  case (Inl e)
  then show ?thesis by (simp add: ws_on_open_def)
next
  case (Inr st1)
  note t1 = ws_send_fields(3)[OF Inr]
  show ?thesis
  proof (cases "map_of (waiting st1) s")
    case None
    then show ?thesis using t1 by (simp add: ws_on_open_def Inr)
  next
    case (Some w)
    obtain n c p where w: "w = (n, c, p)" by (cases w) auto
    show ?thesis
      using timers_resume[of "st1\<lparr>waiting := filter (\<lambda>w. fst w \<noteq> s) (waiting st1)\<rparr>" n c p u] t1
      by (simp add: ws_on_open_def Inr Some w)
  qed
qed

lemma timers_sendCommand: "set (timers st) \<subseteq> set (timers (sendCommand st c p u))"
proof (cases "connected st")
  case True
  show ?thesis
    unfolding sendCommand_connected[OF True]
    using timers_resume[of "st\<lparr>ncalls := Suc (ncalls st)\<rparr>"] by simp
next
  case False
  show ?thesis unfolding sendCommand_unconnected[OF False] by simp
qed

lemma timer_stays_step:
  assumes a: "wf U st" and t: "t \<in> set (timers st)" and n: "\<not> settles parse t ev"
  shows "t \<in> set (timers (step parse st ev))"
proof (cases ev)
  case (EvCall c p u)
  show ?thesis unfolding EvCall step.simps using t timers_sendCommand[of st c p u]
    by (cases "crashed st") auto
next
  case (EvOpen s ju u)
  have "t \<in> set (timers (set_ready st s OPEN))" using t by (simp add: set_ready_def)
  then show ?thesis unfolding EvOpen step.simps using t timers_ws_on_open[of "set_ready st s OPEN" s ju u]
    by (cases "crashed st \<or> ready_of st s \<noteq> CONNECTING") auto
next
  case (EvMessage s raw)
  have "t \<in> set (timers (ws_on_message parse st raw))"
    using ws_on_message_finish[of parse st raw]
  proof (elim disjE exE conjE)
    assume "ws_on_message parse st raw = st"
    then show ?thesis using t by simp
  next
    fix data i m
    assume "ws_on_message parse st raw = pending_delete st i"
    then show ?thesis using t by (simp add: pending_delete_def)
  next
    fix data i m oc
    assume d: "parse raw = Some data" "js_prop (js_prop data ''message'') ''id'' = JStr i"
      and p: "(i, m) \<in> set (pending st)"
      and e: "ws_on_message parse st raw = finish st i m oc"
    have ne: "i \<noteq> t_id t" using n d unfolding EvMessage by auto
    have "m \<noteq> t_call t"
    proof
      assume "m = t_call t"
      moreover have "(t_id t, t_call t) \<in> set (registered st)"
        using a t unfolding wf_def timer_ok_def by blast
      moreover have "(i, m) \<in> set (registered st)"
        using a p unfolding wf_def pend_ok_def by blast
      ultimately have "t_id t = i"
        using reg_call_unique[of U st i m "t_id t"] a unfolding wf_def by blast
      then show False using ne by simp
    qed
    then show ?thesis unfolding e using t by (simp add: finish_def)
  qed
  then show ?thesis unfolding EvMessage step.simps using t
    by (cases "crashed st \<or> \<not> s < length (ready_states st)") simp_all
next
  case (EvError s m)
  show ?thesis unfolding EvError step.simps using t
    by (cases "crashed st \<or> \<not> s < length (ready_states st)")
       (simp_all add: ws_on_error_fields set_ready_def)
next
  case (EvClosing s)
  show ?thesis unfolding EvClosing step.simps using t
    by (cases "crashed st \<or> \<not> s < length (ready_states st)") (simp_all add: set_ready_def)
next
  case (EvClose s)
  show ?thesis unfolding EvClose step.simps using t
    by (cases "crashed st \<or> \<not> s < length (ready_states st)")
       (simp_all add: set_ready_def ws_on_close_def)
next
  case (EvTimer m)
  have m: "m \<noteq> t_call t" using n unfolding EvTimer by simp
  have "t \<in> set (timers (timer_fires st m))"
    using t m by (simp add: timer_fires_def settle_def pending_delete_def clearTimeout_def
        split: option.splits)
  then show ?thesis unfolding EvTimer step.simps using t by (cases "crashed st") simp_all
qed

text \<open>So does the entry of the map, while it is there.\<close>

lemma pending_resume:
  "u \<notin> fst ` set (pending st) \<Longrightarrow>
   set (pending st) \<subseteq> set (pending (sendCommand_resume st n c p u))"
proof -
  assume u: "u \<notin> fst ` set (pending st)"
  let ?st1 = "register st n c u"
  have 1: "set (pending st) \<subseteq> set (pending ?st1)" by (auto simp: register_fields[OF u])
  show ?thesis
  proof (cases "ws_send ?st1 (request_frame u c p)")
    case (Inl e)
    then show ?thesis using 1 by (simp add: sendCommand_resume_def Let_def settle_def)
  next
    case (Inr st2)
    have "pending st2 = pending ?st1"
      using Inr by (auto simp: ws_send_def split: option.splits ready_state.splits)
    then show ?thesis using 1 by (simp add: sendCommand_resume_def Let_def Inr)
  qed
qed

lemma pending_sendCommand:
  "u \<notin> fst ` set (pending st) \<Longrightarrow> set (pending st) \<subseteq> set (pending (sendCommand st c p u))"
proof (cases "connected st")
  case True
  assume "u \<notin> fst ` set (pending st)"
  then show ?thesis
    unfolding sendCommand_connected[OF True]
    using pending_resume[of u "st\<lparr>ncalls := Suc (ncalls st)\<rparr>"] by simp
next
  case False
  show ?thesis unfolding sendCommand_unconnected[OF False] by simp
qed

lemma pending_ws_on_open:
  "u \<notin> fst ` set (pending st) \<Longrightarrow> set (pending st) \<subseteq> set (pending (ws_on_open st s ju u))"
proof (cases "ws_send st (join_frame ju)")
  case (Inl e)
  then show ?thesis by (simp add: ws_on_open_def)
next
  case (Inr st1)
  assume u: "u \<notin> fst ` set (pending st)"
  have p1: "pending st1 = pending st"
    using Inr by (auto simp: ws_send_def split: option.splits ready_state.splits)
  show ?thesis
  proof (cases "map_of (waiting st1) s")
    case None
    then show ?thesis using p1 by (simp add: ws_on_open_def Inr)
  next
    case (Some w)
    obtain n c p where w: "w = (n, c, p)" by (cases w) auto
    show ?thesis
      using pending_resume[of u "st1\<lparr>waiting := filter (\<lambda>w. fst w \<noteq> s) (waiting st1)\<rparr>" n c p]
        u p1
      by (simp add: ws_on_open_def Inr Some w)
  qed
qed

lemma entry_stays_step:
  assumes a: "wf U st" and f: "set (request_ids ev) \<inter> U = {}"
    and t: "t \<in> set (timers st)" and p: "(t_id t, t_call t) \<in> set (pending st)"
    and n: "\<not> settles parse t ev"
  shows "(t_id t, t_call t) \<in> set (pending (step parse st ev))"
proof (cases ev)
  case (EvCall c q u)
  have "u \<notin> U" using f EvCall by simp
  then have "u \<notin> fst ` set (pending st)" using a pending_fresh unfolding wf_def by blast
  from pending_sendCommand[OF this, of c q] show ?thesis
    unfolding EvCall step.simps using p by (cases "crashed st") auto
next
  case (EvOpen s ju u)
  have "u \<notin> U" using f EvOpen by simp
  then have "u \<notin> fst ` set (pending (set_ready st s OPEN))"
    using a pending_fresh unfolding wf_def by (fastforce simp: set_ready_def)
  from pending_ws_on_open[OF this, of s ju] show ?thesis
    unfolding EvOpen step.simps using p
    by (cases "crashed st \<or> ready_of st s \<noteq> CONNECTING") (auto simp: set_ready_def)
next
  case (EvMessage s raw)
  have "(t_id t, t_call t) \<in> set (pending (ws_on_message parse st raw))"
    using ws_on_message_finish[of parse st raw]
  proof (elim disjE exE conjE)
    assume "ws_on_message parse st raw = st"
    then show ?thesis using p by simp
  next
    fix data i m
    assume d: "parse raw = Some data" "js_prop (js_prop data ''message'') ''id'' = JStr i"
      and e: "ws_on_message parse st raw = pending_delete st i"
    have ne: "i \<noteq> t_id t" using n d unfolding EvMessage by auto
    then show ?thesis unfolding e using p by (simp add: pending_delete_def)
  next
    fix data i m oc
    assume d: "parse raw = Some data" "js_prop (js_prop data ''message'') ''id'' = JStr i"
      and e: "ws_on_message parse st raw = finish st i m oc"
    have ne: "i \<noteq> t_id t" using n d unfolding EvMessage by auto
    then show ?thesis unfolding e using p by (simp add: finish_def)
  qed
  then show ?thesis unfolding EvMessage step.simps using p
    by (cases "crashed st \<or> \<not> s < length (ready_states st)") simp_all
next
  case (EvError s m)
  show ?thesis unfolding EvError step.simps using p
    by (cases "crashed st \<or> \<not> s < length (ready_states st)")
       (simp_all add: ws_on_error_fields set_ready_def)
next
  case (EvClosing s)
  show ?thesis unfolding EvClosing step.simps using p
    by (cases "crashed st \<or> \<not> s < length (ready_states st)") (simp_all add: set_ready_def)
next
  case (EvClose s)
  show ?thesis unfolding EvClose step.simps using p
    by (cases "crashed st \<or> \<not> s < length (ready_states st)")
       (simp_all add: set_ready_def ws_on_close_def)
next
  case (EvTimer m)
  have m: "m \<noteq> t_call t" using n unfolding EvTimer by simp
  have "(t_id t, t_call t) \<in> set (pending (timer_fires st m))"
  proof (cases "find (\<lambda>t. t_call t = m) (timers st)")
    case None
    then show ?thesis using p by (simp add: timer_fires_def)
  next
    case (Some t')
    have t': "t' \<in> set (timers st)" "t_call t' = m"
      using Some by (auto simp: find_Some_iff)
    have "t_id t' \<noteq> t_id t"
    proof
      assume "t_id t' = t_id t"
      moreover have "(t_id t', m) \<in> set (registered st)" "(t_id t, t_call t) \<in> set (registered st)"
        using a t t' unfolding wf_def timer_ok_def by auto
      ultimately have "m = t_call t"
        using reg_id_unique[of U st "t_id t" "t_call t" m] a unfolding wf_def by auto
      then show False using m by simp
    qed
    then show ?thesis
      using p by (simp add: timer_fires_def Some settle_def pending_delete_def clearTimeout_def)
  qed
  then show ?thesis unfolding EvTimer step.simps using p by (cases "crashed st") simp_all
qed

lemma timer_stays_run:
  "wf U st \<Longrightarrow> distinct (concat (map request_ids evs)) \<Longrightarrow>
   set (concat (map request_ids evs)) \<inter> U = {} \<Longrightarrow> t \<in> set (timers st) \<Longrightarrow>
   \<forall>ev \<in> set evs. \<not> settles parse t ev \<Longrightarrow>
   t \<in> set (timers (run_events parse st evs))
   \<and> ((t_id t, t_call t) \<in> set (pending st)
        \<longrightarrow> (t_id t, t_call t) \<in> set (pending (run_events parse st evs)))"
proof (induction evs arbitrary: U st)
  case Nil
  then show ?case by (simp add: run_events_def)
next
  case (Cons ev evs)
  have p2: "distinct (concat (map request_ids evs))"
    "set (request_ids ev) \<inter> set (concat (map request_ids evs)) = {}"
    using Cons.prems(2) by simp_all
  have p3: "set (request_ids ev) \<inter> U = {}" "set (concat (map request_ids evs)) \<inter> U = {}"
    using Cons.prems(3) by (simp_all add: Int_Un_distrib2)
  have q: "\<not> settles parse t ev" using Cons.prems(5) by simp
  have 1: "wf (U \<union> set (request_ids ev)) (step parse st ev)"
    by (rule wf_step[OF Cons.prems(1) p3(1)])
  have 3: "set (concat (map request_ids evs)) \<inter> (U \<union> set (request_ids ev)) = {}"
    using p2(2) p3(2) by blast
  have 4: "t \<in> set (timers (step parse st ev))"
    by (rule timer_stays_step[OF Cons.prems(1,4) q])
  have 5: "\<forall>ev \<in> set evs. \<not> settles parse t ev" using Cons.prems(5) by simp
  have 6: "(t_id t, t_call t) \<in> set (pending (step parse st ev))"
    if "(t_id t, t_call t) \<in> set (pending st)"
    by (rule entry_stays_step[OF Cons.prems(1) p3(1) Cons.prems(4) that q])
  show ?case unfolding run_events_Cons using Cons.IH[OF 1 p2(1) 3 4 5] 6 by blast
qed

lemma run_events_append:
  "run_events parse st (xs @ ys) = run_events parse (run_events parse st xs) ys"
  by (simp add: run_events_def)

lemma find_distinct:
  "distinct (map f xs) \<Longrightarrow> x \<in> set xs \<Longrightarrow> find (\<lambda>y. f y = f x) xs = Some x"
  by (induction xs) (auto simp: image_iff)

lemma ws_on_message_miss:
  assumes "parse raw = Some data" and "js_prop (js_prop data ''message'') ''id'' = JStr i"
    and "i \<notin> fst ` set (pending st)"
  shows "ws_on_message parse st raw = st"
proof -
  have g: "map_of (pending st) i = None" using assms(3) by (simp add: map_of_eq_None_iff)
  show ?thesis
  proof (cases "get_prop data ''type''")
    case (Inl e)
    then show ?thesis by (simp add: ws_on_message_def assms(1))
  next
    case (Inr ty)
    show ?thesis
      by (cases "ty = JStr ''broadcast'' \<and> truthy (js_prop data ''message'')")
         (simp_all add: ws_on_message_def assms(1,2) Inr g)
  qed
qed

section \<open>The issuer's contract\<close>



text \<open>What the callback of an armed timer does.\<close>

lemma timer_fires_effect:
  assumes w: "wf U st" and t: "t \<in> set (timers st)" and e0: "st' = timer_fires st (t_call t)"
  shows "wf U st'"
    and "settled st' = settled st @ [(t_call t, Rejected (Error (timeout_message (t_command t))))]"
    and "pending st' = filter (\<lambda>e. fst e \<noteq> t_id t) (pending st)"
    and "t_id t \<in> set (deleted st')"
    and "t_call t \<notin> t_call ` set (timers st')"
    and "(t_id t, t_call t) \<in> set (pending st) \<Longrightarrow> deleted st' = deleted st @ [t_id t]"
    and "registered st' = registered st"
proof -
  let ?oc = "Rejected (Error (timeout_message (t_command t)))"
  have tk: "timer_ok st" using w unfolding wf_def by simp
  have rg: "(t_id t, t_call t) \<in> set (registered st)"
    using tk t unfolding timer_ok_def by blast
  have f: "find (\<lambda>y. t_call y = t_call t) (timers st) = Some t"
    by (rule find_distinct[OF _ t]) (use tk in \<open>simp add: timer_ok_def\<close>)
  show w': "wf U st'" unfolding e0 by (rule wf_timer_fires[OF w])
  have e: "st' = settle (pending_delete (clearTimeout st (t_call t)) (t_id t)) (t_call t) ?oc"
    unfolding e0 by (simp add: timer_fires_def f)
  show "settled st' = settled st @ [(t_call t, ?oc)]"
    unfolding e by (simp add: settle_def pending_delete_def clearTimeout_def)
  show p': "pending st' = filter (\<lambda>e. fst e \<noteq> t_id t) (pending st)"
  proof (cases "t_id t \<in> fst ` set (pending st)")
    case True
    then show ?thesis unfolding e by (simp add: settle_def pending_delete_def clearTimeout_def)
  next
    case False
    then have "filter (\<lambda>e. fst e \<noteq> t_id t) (pending st) = pending st"
      by (force simp: filter_id_conv)
    then show ?thesis
      using False unfolding e by (simp add: settle_def pending_delete_def clearTimeout_def)
  qed
  show r': "registered st' = registered st"
    unfolding e by (simp add: settle_def pending_delete_def clearTimeout_def)
  have "(t_id t, t_call t) \<notin> set (pending st')" unfolding p' by simp
  then show "t_id t \<in> set (deleted st')"
    using w' rg r' unfolding wf_def done_ok_def by fastforce
  show "t_call t \<notin> t_call ` set (timers st')"
    unfolding e by (auto simp: settle_def pending_delete_def clearTimeout_def)
  show "deleted st' = deleted st @ [t_id t]" if "(t_id t, t_call t) \<in> set (pending st)"
  proof -
    have "t_id t \<in> fst ` set (pending st)" using that by force
    then show ?thesis unfolding e by (simp add: settle_def pending_delete_def clearTimeout_def)
  qed
qed

text \<open>
  C3. An invocation has sent its request (its timer \<open>t\<close> is armed after \<open>evs1\<close>) and in the
  events \<open>evs2\<close> that follow neither its timer fires nor a frame carrying its id arrives.
  Then the timer, set to 30000 ms, is still armed and the invocation unsettled; when the
  timer fires, the invocation is rejected with the timeout error, that one time; its
  entry is then out of the map and has been deleted, once; and a frame carrying the id
  that arrives afterwards leaves the state as it is. If the entry was in the map after
  \<open>evs1\<close>, as it is when the request has just been sent, it is still there when the timer
  fires, and it is the timer that deletes it.
\<close>

theorem timeout_rejects_and_forgets:
  assumes fresh: "distinct (concat (map request_ids (evs1 @ evs2)))"
    and armed: "t \<in> set (timers (run_events parse init evs1))"
    and quiet: "\<forall>ev \<in> set evs2. \<not> settles parse t ev"
    and st: "st = run_events parse init (evs1 @ evs2)"
    and alive: "\<not> crashed st"
    and fired: "st' = step parse st (EvTimer (t_call t))"
  shows "t \<in> set (timers st) \<and> t_delay t = TIMEOUT_MS \<and> TIMEOUT_MS = 30000
       \<and> t_call t \<notin> fst ` set (settled st)
       \<and> ((t_id t, t_call t) \<in> set (pending (run_events parse init evs1))
            \<longrightarrow> (t_id t, t_call t) \<in> set (pending st) \<and> deleted st' = deleted st @ [t_id t])
       \<and> settled st' = settled st @ [(t_call t, Rejected (Error (timeout_message (t_command t))))]
       \<and> pending st' = filter (\<lambda>e. fst e \<noteq> t_id t) (pending st)
       \<and> t_id t \<notin> fst ` set (pending st')
       \<and> t_id t \<in> set (deleted st') \<and> distinct (deleted st')
       \<and> t \<notin> set (timers st')
       \<and> (\<forall>s raw data.
             parse raw = Some data \<and> js_prop (js_prop data ''message'') ''id'' = JStr (t_id t)
             \<longrightarrow> step parse st' (EvMessage s raw) = st')"
proof -
  let ?U1 = "set (concat (map request_ids evs1))"
  let ?U = "set (concat (map request_ids (evs1 @ evs2)))"
  let ?st1 = "run_events parse init evs1"
  have d1: "distinct (concat (map request_ids evs1))" and d2: "distinct (concat (map request_ids evs2))"
    and dj: "set (concat (map request_ids evs2)) \<inter> ?U1 = {}"
    using fresh by auto
  have w1: "wf ?U1 ?st1" by (rule wf_run[OF d1])
  have w: "wf ?U st" unfolding st by (rule wf_run[OF fresh])
  have stay: "t \<in> set (timers st)
       \<and> ((t_id t, t_call t) \<in> set (pending ?st1) \<longrightarrow> (t_id t, t_call t) \<in> set (pending st))"
    unfolding st run_events_append by (rule timer_stays_run[OF w1 d2 dj armed quiet])
  have t: "t \<in> set (timers st)" using stay by simp
  have tk: "timer_ok st" using w unfolding wf_def by simp
  have dl: "t_delay t = TIMEOUT_MS" and us: "t_call t \<notin> fst ` set (settled st)"
    using tk t unfolding timer_ok_def by blast+
  have e0: "st' = timer_fires st (t_call t)" unfolding fired using alive by simp
  note fx = timer_fires_effect[OF w t e0]
  have miss: "t_id t \<notin> fst ` set (pending st')" unfolding fx(3) by auto
  have t': "t \<notin> set (timers st')" using fx(5) by blast
  have dd: "distinct (deleted st')" using fx(1) unfolding wf_def deleted_ok_def by simp
  have stored: "(t_id t, t_call t) \<in> set (pending st) \<and> deleted st' = deleted st @ [t_id t]"
    if "(t_id t, t_call t) \<in> set (pending ?st1)"
    using stay that fx(6) by blast
  have late: "step parse st' (EvMessage s raw) = st'"
    if "parse raw = Some data" "js_prop (js_prop data ''message'') ''id'' = JStr (t_id t)"
    for s raw data
    using ws_on_message_miss[of parse raw data "t_id t" st', OF that miss] by simp
  have "TIMEOUT_MS = 30000" by (simp add: TIMEOUT_MS_def)
  then show ?thesis using t dl us stored fx(2) fx(3) miss fx(4) dd t' late by blast
qed

lemmas issuer_eval =
  run_events_def init_def sendCommand_def connect_def connected_def ready_of_def set_ready_def
  ws_on_open_def ws_send_def join_frame_def request_frame_def json_object_def
  sendCommand_resume_def register_def ws_on_message_def ws_on_error_def ws_on_close_def
  timer_fires_def js_prop_def pending_delete_def handler_resolve_def
  handler_reject_def clearTimeout_def settle_def timeout_message_def Let_def CHANNEL_def
  TIMEOUT_MS_def

theorem timeout_rejects_and_forgets_witness:
  "distinct (concat (map request_ids
       ([EvCall ''get_selection'' JUndefined ''u0'', EvOpen 0 ''j0'' ''u1''] @ [EvClose 0])))
   \<and> \<lparr>t_call = 0, t_id = ''u1'', t_command = ''get_selection'', t_delay = 30000\<rparr>
       \<in> set (timers (run_events
                 (map_of [(''late'', JObj [(''type'', JStr ''broadcast''),
                                            (''message'', JObj [(''id'', JStr ''u1''), (''result'', JStr ''ok'')])])])
                 init [EvCall ''get_selection'' JUndefined ''u0'', EvOpen 0 ''j0'' ''u1'']))
   \<and> (''u1'', 0)
       \<in> set (pending (run_events
                 (map_of [(''late'', JObj [(''type'', JStr ''broadcast''),
                                            (''message'', JObj [(''id'', JStr ''u1''), (''result'', JStr ''ok'')])])])
                 init [EvCall ''get_selection'' JUndefined ''u0'', EvOpen 0 ''j0'' ''u1'']))
   \<and> settled (step
         (map_of [(''late'', JObj [(''type'', JStr ''broadcast''),
                                    (''message'', JObj [(''id'', JStr ''u1''), (''result'', JStr ''ok'')])])])
         (run_events
            (map_of [(''late'', JObj [(''type'', JStr ''broadcast''),
                                       (''message'', JObj [(''id'', JStr ''u1''), (''result'', JStr ''ok'')])])])
            init ([EvCall ''get_selection'' JUndefined ''u0'', EvOpen 0 ''j0'' ''u1''] @ [EvClose 0]))
         (EvTimer 0))
       = [(0, Rejected (Error ''Timeout waiting for Figma response (command: get_selection)''))]
   \<and> deleted (step
         (map_of [(''late'', JObj [(''type'', JStr ''broadcast''),
                                    (''message'', JObj [(''id'', JStr ''u1''), (''result'', JStr ''ok'')])])])
         (run_events
            (map_of [(''late'', JObj [(''type'', JStr ''broadcast''),
                                       (''message'', JObj [(''id'', JStr ''u1''), (''result'', JStr ''ok'')])])])
            init ([EvCall ''get_selection'' JUndefined ''u0'', EvOpen 0 ''j0'' ''u1''] @ [EvClose 0]))
         (EvTimer 0))
       = [''u1'']
   \<and> step
         (map_of [(''late'', JObj [(''type'', JStr ''broadcast''),
                                    (''message'', JObj [(''id'', JStr ''u1''), (''result'', JStr ''ok'')])])])
         (step
            (map_of [(''late'', JObj [(''type'', JStr ''broadcast''),
                                       (''message'', JObj [(''id'', JStr ''u1''), (''result'', JStr ''ok'')])])])
            (run_events
               (map_of [(''late'', JObj [(''type'', JStr ''broadcast''),
                                          (''message'', JObj [(''id'', JStr ''u1''), (''result'', JStr ''ok'')])])])
               init ([EvCall ''get_selection'' JUndefined ''u0'', EvOpen 0 ''j0'' ''u1''] @ [EvClose 0]))
            (EvTimer 0))
         (EvMessage 0 ''late'')
       = step
            (map_of [(''late'', JObj [(''type'', JStr ''broadcast''),
                                       (''message'', JObj [(''id'', JStr ''u1''), (''result'', JStr ''ok'')])])])
            (run_events
               (map_of [(''late'', JObj [(''type'', JStr ''broadcast''),
                                          (''message'', JObj [(''id'', JStr ''u1''), (''result'', JStr ''ok'')])])])
               init ([EvCall ''get_selection'' JUndefined ''u0'', EvOpen 0 ''j0'' ''u1''] @ [EvClose 0]))
            (EvTimer 0)"
proof -
  let ?P = "map_of [(''late'', JObj [(''type'', JStr ''broadcast''),
                (''message'', JObj [(''id'', JStr ''u1''), (''result'', JStr ''ok'')])])]"
  let ?evs1 = "[EvCall ''get_selection'' JUndefined ''u0'', EvOpen 0 ''j0'' ''u1'']"
  let ?evs2 = "[EvClose 0]"
  let ?t = "\<lparr>t_call = 0, t_id = ''u1'', t_command = ''get_selection'', t_delay = 30000\<rparr>"
  let ?st = "run_events ?P init (?evs1 @ ?evs2)"
  have h1: "distinct (concat (map request_ids (?evs1 @ ?evs2)))" by simp
  have h2: "?t \<in> set (timers (run_events ?P init ?evs1))" by (simp add: issuer_eval)
  have h3: "\<forall>ev \<in> set ?evs2. \<not> settles ?P ?t ev" by simp
  have h4: "\<not> crashed ?st" by (simp add: issuer_eval)
  have h5: "(''u1'', 0) \<in> set (pending (run_events ?P init ?evs1))" by (simp add: issuer_eval)
  have v: "settled ?st = []" "deleted ?st = []" by (simp_all add: issuer_eval)
  have p: "?P ''late'' = Some (JObj [(''type'', JStr ''broadcast''),
                (''message'', JObj [(''id'', JStr ''u1''), (''result'', JStr ''ok'')])])"
    "js_prop (js_prop (JObj [(''type'', JStr ''broadcast''),
                (''message'', JObj [(''id'', JStr ''u1''), (''result'', JStr ''ok'')])]) ''message'') ''id''
       = JStr (t_id ?t)"
    by (simp_all add: js_prop_def)
  note th = timeout_rejects_and_forgets[OF h1 h2 h3 refl h4 refl]
  have a: "settled (step ?P ?st (EvTimer 0))
       = [(0, Rejected (Error ''Timeout waiting for Figma response (command: get_selection)''))]"
    using th v by (simp add: timeout_message_def)
  have d: "deleted (step ?P ?st (EvTimer 0)) = [''u1'']"
    using th v h5 by simp
  have b: "step ?P (step ?P ?st (EvTimer 0)) (EvMessage 0 ''late'') = step ?P ?st (EvTimer 0)"
    using th p by (metis timer.select_convs(1))
  show ?thesis using h1 h2 h5 a d b by blast
qed






text \<open>What the listener of \<open>open\<close> sends depends on the socket that \<open>ws\<close> refers to.\<close>

lemma connected_register [simp]: "connected (register st n c u) = connected st"
  by (simp add: connected_def register_def ready_of_def split: option.splits)

lemma connected_frame [simp]:
  "connected (st\<lparr>sent := a\<rparr>) = connected st"
  "connected (st\<lparr>waiting := b\<rparr>) = connected st"
  by (simp_all add: connected_def ready_of_def split: option.splits)









text \<open>
  Aside. Two invocations made while disconnected each make a socket, and \<open>ws\<close> refers to
  the newer one. If the older socket opens first, its listener sends through \<open>ws\<close>, which
  is still connecting: \<open>send\<close> throws, the exception escapes the listener, and nothing
  has been sent.
\<close>

lemma older_socket_opens_first:
  "crashed (run_events (\<lambda>raw. None) init
       [EvCall ''a'' JUndefined ''u0'', EvCall ''b'' JUndefined ''u1'', EvOpen 0 ''j0'' ''u2''])
   \<and> sent (run_events (\<lambda>raw. None) init
       [EvCall ''a'' JUndefined ''u0'', EvCall ''b'' JUndefined ''u1'', EvOpen 0 ''j0'' ''u2''])
     = []"
  by (simp add: issuer_eval)

text \<open>
  C2, as the code has it. The listener of \<open>close\<close> sets \<open>ws\<close> to \<open>null\<close> and does nothing
  else: the map, the timers and the settlements are as before, so every outstanding
  request stays pending with its timer armed. The listener of \<open>error\<close> rejects the
  invocation waiting in \<open>connect\<close> on that socket, if there is one, and no registered
  request.
\<close>

theorem close_leaves_requests_pending:
  assumes "\<not> crashed st" and "s < length (ready_states st)"
  shows "step parse st (EvClose s) = st\<lparr>ready_states := (ready_states st)[s := CLOSED], ws_var := None\<rparr>
       \<and> pending (step parse st (EvClose s)) = pending st
       \<and> timers (step parse st (EvClose s)) = timers st
       \<and> settled (step parse st (EvClose s)) = settled st
       \<and> deleted (step parse st (EvClose s)) = deleted st
       \<and> pending (step parse st (EvError s m)) = pending st
       \<and> timers (step parse st (EvError s m)) = timers st
       \<and> deleted (step parse st (EvError s m)) = deleted st
       \<and> settled (step parse st (EvError s m)) =
           settled st @ (case map_of (waiting st) s of
                           None \<Rightarrow> []
                         | Some (n, c, p) \<Rightarrow> [(n, Rejected (Error m))])"
  using assms
  by (simp add: ws_on_close_def set_ready_def ws_on_error_def settle_def split: option.splits)

theorem close_leaves_requests_pending_witness:
  "pending (step (\<lambda>raw. None)
       (run_events (\<lambda>raw. None) init
          [EvCall ''get_selection'' JUndefined ''u0'', EvOpen 0 ''j0'' ''u1''])
       (EvClose 0))
     = [(''u1'', 0)]
   \<and> settled (step (\<lambda>raw. None)
       (run_events (\<lambda>raw. None) init
          [EvCall ''get_selection'' JUndefined ''u0'', EvOpen 0 ''j0'' ''u1''])
       (EvClose 0))
     = []"
proof -
  let ?st = "run_events (\<lambda>raw. None) init
          [EvCall ''get_selection'' JUndefined ''u0'', EvOpen 0 ''j0'' ''u1'']"
  have h: "\<not> crashed ?st" "0 < length (ready_states ?st)" by (simp_all add: issuer_eval)
  have v: "pending ?st = [(''u1'', 0)]" "settled ?st = []" by (simp_all add: issuer_eval)
  from close_leaves_requests_pending[OF h, of "\<lambda>raw. None" "[]"] v
  show ?thesis by simp
qed

text \<open>
  C2 as stated fails: one request is outstanding when the socket closes, and after the
  close it is still in the map, unsettled, waiting for its timer.
\<close>

theorem close_settles_nothing:
  "pending (run_events (\<lambda>raw. None) init
       [EvCall ''get_selection'' JUndefined ''u0'', EvOpen 0 ''j0'' ''u1'', EvClose 0])
     = [(''u1'', 0)]
   \<and> settled (run_events (\<lambda>raw. None) init
       [EvCall ''get_selection'' JUndefined ''u0'', EvOpen 0 ''j0'' ''u1'', EvClose 0])
     = []
   \<and> timers (run_events (\<lambda>raw. None) init
       [EvCall ''get_selection'' JUndefined ''u0'', EvOpen 0 ''j0'' ''u1'', EvClose 0])
     = [\<lparr>t_call = 0, t_id = ''u1'', t_command = ''get_selection'', t_delay = 30000\<rparr>]"
  by (simp add: issuer_eval)

text \<open>
  A frame whose message carries the id of a stored entry settles the invocation of that
  entry, with the frame's own \<open>error\<close> or \<open>result\<close>, and touches no other entry; when the
  \<open>error\<close> has no string conversion, the entry is deleted and the invocation is left to
  its timer.
\<close>

lemma reply_settles_matching_call:
  assumes "pend_ok st" and "parse raw = Some data"
    and "get_prop data ''type'' = Inr (JStr ''broadcast'')"
    and "msg = js_prop data ''message''" and "truthy msg"
    and "js_prop msg ''id'' = JStr i" and "(i, n) \<in> set (pending st)"
  shows "ws_on_message parse st raw =
           (if truthy (js_prop msg ''error'') then
              (case js_to_string (js_prop msg ''error'') of
                 Inl e \<Rightarrow> pending_delete st i
               | Inr m \<Rightarrow> finish st i n (Rejected (Error m)))
            else finish st i n (Resolved (js_prop msg ''result'')))"
proof -
  have g: "map_of (pending st) i = Some n"
    using assms(1,7) unfolding pend_ok_def by simp
  have k: "i \<in> fst ` set (pending st)" using assms(7) by force
  have "ws_on_message parse st raw =
          (if truthy (js_prop msg ''error'') then
             (case js_to_string (js_prop msg ''error'') of
                Inl e \<Rightarrow> pending_delete st i
              | Inr m \<Rightarrow> handler_reject (pending_delete st i) n (Error m))
           else handler_resolve (pending_delete st i) n (js_prop msg ''result''))"
    using assms(2,3,5,6) g unfolding assms(4) by (simp add: ws_on_message_def Let_def)
  then show ?thesis
    by (simp add: handler_reject_finish[OF k] handler_resolve_finish[OF k] split: sum.splits)
qed

text \<open>
  C1 fails on the relay as a whole. The hub sends every message back to its sender,
  marked \<open>You\<close>; the issuer's listener does not look at the mark. The echo of a request
  carries the request's id and no \<open>result\<close>: the invocation is resolved with \<open>undefined\<close>,
  and the executor's reply, arriving later under the same id, finds no entry. Below, the
  issuer is endpoint 1 of the hub and the plugin endpoint 2: the issuer connects and
  sends; both join; the hub delivers the request to both; the issuer receives the echo
  and then the reply.
\<close>

theorem request_resolved_by_own_echo:
  "sent (run_events (\<lambda>raw. None) init
           [EvCall ''get_selection'' JUndefined ''u0'', EvOpen 0 ''j0'' ''u1''])
     = [(0, join_frame ''j0''), (0, request_frame ''u1'' ''get_selection'' (JObj []))]
   \<and> fst (websocket_message (map_of [(''join'', join_frame ''j0'')]) (\<lambda>e. OPEN) [] 1 ''join'')
     = [(JStr ''figma-mcp'', [1])]
   \<and> fst (websocket_message
              (map_of [(''join'', JObj [(''type'', JStr ''join''), (''channel'', JStr ''figma-mcp'')])])
              (\<lambda>e. OPEN) [(JStr ''figma-mcp'', [1])] 2 ''join'')
     = [(JStr ''figma-mcp'', [1, 2])]
   \<and> websocket_message
         (map_of [(''request'', request_frame ''u1'' ''get_selection'' (JObj []))])
         (\<lambda>e. OPEN) [(JStr ''figma-mcp'', [1, 2])] 1 ''request''
     = ([(JStr ''figma-mcp'', [1, 2])],
        [(1, JObj [(''type'', JStr ''broadcast''),
               (''message'', JObj [(''id'', JStr ''u1''), (''command'', JStr ''get_selection''),
                                   (''params'', JObj [])]),
               (''sender'', JStr ''You''), (''channel'', JStr ''figma-mcp'')]),
         (2, JObj [(''type'', JStr ''broadcast''),
               (''message'', JObj [(''id'', JStr ''u1''), (''command'', JStr ''get_selection''),
                                   (''params'', JObj [])]),
               (''sender'', JStr ''Remote''), (''channel'', JStr ''figma-mcp'')])],
        [LogBroadcasting ''figma-mcp''
           (JObj [(''id'', JStr ''u1''), (''command'', JStr ''get_selection''), (''params'', JObj [])])])
   \<and> settled (run_events
         (map_of [(''echo'', JObj [(''type'', JStr ''broadcast''),
               (''message'', JObj [(''id'', JStr ''u1''), (''command'', JStr ''get_selection''),
                                   (''params'', JObj [])]),
               (''sender'', JStr ''You''), (''channel'', JStr ''figma-mcp'')]),
                  (''reply'', JObj [(''type'', JStr ''broadcast''),
               (''message'', JObj [(''id'', JStr ''u1''), (''result'', JObj [(''count'', JNum ''0'')])]),
               (''sender'', JStr ''Remote''), (''channel'', JStr ''figma-mcp'')])])
         init
         [EvCall ''get_selection'' JUndefined ''u0'', EvOpen 0 ''j0'' ''u1'', EvMessage 0 ''echo''])
     = [(0, Resolved JUndefined)]
   \<and> settled (run_events
         (map_of [(''echo'', JObj [(''type'', JStr ''broadcast''),
               (''message'', JObj [(''id'', JStr ''u1''), (''command'', JStr ''get_selection''),
                                   (''params'', JObj [])]),
               (''sender'', JStr ''You''), (''channel'', JStr ''figma-mcp'')]),
                  (''reply'', JObj [(''type'', JStr ''broadcast''),
               (''message'', JObj [(''id'', JStr ''u1''), (''result'', JObj [(''count'', JNum ''0'')])]),
               (''sender'', JStr ''Remote''), (''channel'', JStr ''figma-mcp'')])])
         init
         [EvCall ''get_selection'' JUndefined ''u0'', EvOpen 0 ''j0'' ''u1'', EvMessage 0 ''echo'',
          EvMessage 0 ''reply''])
     = [(0, Resolved JUndefined)]"
  by (simp add: issuer_eval websocket_message_def message_try_def on_message_def on_join_def
      channels_get_def channels_set_def set_add_def)

end
